theory Spec2Isabelle
  imports Complex_Main "HOL-Library.Log_Nat"
begin

section \<open>JavaScript numbers\<close>

text \<open>
  Every number of \<^verbatim>\<open>dosing-quiz.js\<close> is an IEEE 754 binary64 value. A finite value is
  kept as the rational it denotes; \<open>Fin 0\<close> is \<open>+0\<close> and \<open>NZero\<close> is \<open>-0\<close>. The result
  of an arithmetic operation is the exact rational result rounded to the nearest binary64
  value, ties to even (\<open>fl\<close>), overflowing to an infinity.
\<close>

datatype jsnum = NaN | PInf | NInf | NZero | Fin rat

definition pow2 :: "int \<Rightarrow> rat" where
  "pow2 e = (if 0 \<le> e then 2 ^ nat e else 1 / 2 ^ nat (- e))"

text \<open>\<open>ilog2 x\<close> is \<open>\<lfloor>log\<^sub>2 \<bar>x\<bar>\<rfloor>\<close> for \<open>x \<noteq> 0\<close>, computed from the bit lengths of numerator
  and denominator.\<close>

definition ilog2 :: "rat \<Rightarrow> int" where
  "ilog2 x = (case quotient_of \<bar>x\<bar> of (p, q) \<Rightarrow>
     (let e = bitlen p - bitlen q in if pow2 e \<le> \<bar>x\<bar> then e else e - 1))"

definition round_half_even :: "rat \<Rightarrow> int" where
  "round_half_even x =
     (let f = \<lfloor>x\<rfloor>; d = x - of_int f
      in if d < 1 / 2 then f else if 1 / 2 < d then f + 1 else if even f then f else f + 1)"

text \<open>Rounding to 53 significant bits with minimum exponent \<open>-1022\<close> (gradual underflow):
  \<open>x\<close> is rounded to a multiple of \<open>2\<close> to the power \<open>quantum_exp x\<close>. The exponent is not
  bounded above here, \<open>js_round\<close> turns the overflow into an infinity.\<close>

definition quantum_exp :: "rat \<Rightarrow> int" where
  "quantum_exp x = max (ilog2 x) (- 1022) - 52"

definition fl :: "rat \<Rightarrow> rat" where
  "fl x = (if x = 0 then 0
           else of_int (round_half_even (x / pow2 (quantum_exp x))) * pow2 (quantum_exp x))"

definition is_double :: "rat \<Rightarrow> bool" where
  "is_double x \<longleftrightarrow> fl x = x \<and> \<bar>x\<bar> < pow2 1024"

definition inf_of :: "bool \<Rightarrow> jsnum" where
  "inf_of neg = (if neg then NInf else PInf)"

definition zero_of :: "bool \<Rightarrow> jsnum" where
  "zero_of neg = (if neg then NZero else Fin 0)"

text \<open>The Number for an exact result \<open>x\<close>; \<open>neg\<close> is the sign an exact zero takes.\<close>

definition js_round :: "bool \<Rightarrow> rat \<Rightarrow> jsnum" where
  "js_round neg x =
     (let r = fl x
      in if pow2 1024 \<le> \<bar>r\<bar> then inf_of (x < 0)
         else if r = 0 then zero_of (if x = 0 then neg else x < 0)
         else Fin r)"

text \<open>A decimal literal of the source text denotes the nearest Number.\<close>

definition lit :: "rat \<Rightarrow> jsnum" where
  "lit x = js_round False x"

fun val :: "jsnum \<Rightarrow> rat" where
  "val (Fin x) = x"
| "val _ = 0"

fun sign_bit :: "jsnum \<Rightarrow> bool" where
  "sign_bit NInf = True"
| "sign_bit NZero = True"
| "sign_bit (Fin x) = (x < 0)"
| "sign_bit _ = False"

fun is_zero :: "jsnum \<Rightarrow> bool" where
  "is_zero NZero = True"
| "is_zero (Fin x) = (x = 0)"
| "is_zero _ = False"

fun is_inf :: "jsnum \<Rightarrow> bool" where
  "is_inf PInf = True"
| "is_inf NInf = True"
| "is_inf _ = False"

text \<open>A finite Number that is a binary64 value (what \<^verbatim>\<open>parseFloat\<close> returns for a
  numeric text).\<close>

fun finite_double :: "jsnum \<Rightarrow> bool" where
  "finite_double NZero = True"
| "finite_double (Fin x) = is_double x"
| "finite_double _ = False"

fun js_neg :: "jsnum \<Rightarrow> jsnum" where
  "js_neg NaN = NaN"
| "js_neg PInf = NInf"
| "js_neg NInf = PInf"
| "js_neg NZero = Fin 0"
| "js_neg (Fin x) = (if x = 0 then NZero else Fin (- x))"

definition js_add :: "jsnum \<Rightarrow> jsnum \<Rightarrow> jsnum" where
  "js_add a b =
     (if a = NaN \<or> b = NaN then NaN
      else if is_inf a then (if is_inf b \<and> a \<noteq> b then NaN else a)
      else if is_inf b then b
      else js_round (sign_bit a \<and> sign_bit b) (val a + val b))"

definition js_sub :: "jsnum \<Rightarrow> jsnum \<Rightarrow> jsnum" where
  "js_sub a b = js_add a (js_neg b)"

definition js_mul :: "jsnum \<Rightarrow> jsnum \<Rightarrow> jsnum" where
  "js_mul a b =
     (if a = NaN \<or> b = NaN then NaN
      else if (is_inf a \<and> is_zero b) \<or> (is_zero a \<and> is_inf b) then NaN
      else if is_inf a \<or> is_inf b then inf_of (sign_bit a \<noteq> sign_bit b)
      else js_round (sign_bit a \<noteq> sign_bit b) (val a * val b))"

definition js_div :: "jsnum \<Rightarrow> jsnum \<Rightarrow> jsnum" where
  "js_div a b =
     (if a = NaN \<or> b = NaN then NaN
      else if is_inf a then (if is_inf b then NaN else inf_of (sign_bit a \<noteq> sign_bit b))
      else if is_inf b then zero_of (sign_bit a \<noteq> sign_bit b)
      else if is_zero b then (if is_zero a then NaN else inf_of (sign_bit a \<noteq> sign_bit b))
      else js_round (sign_bit a \<noteq> sign_bit b) (val a / val b))"

text \<open>\<^verbatim>\<open>a < b\<close>: false when either side is NaN; the two zeros are equal.\<close>

fun js_lt :: "jsnum \<Rightarrow> jsnum \<Rightarrow> bool" where
  "js_lt NaN _ = False"
| "js_lt _ NaN = False"
| "js_lt PInf _ = False"
| "js_lt _ NInf = False"
| "js_lt NInf _ = True"
| "js_lt _ PInf = True"
| "js_lt a b = (val a < val b)"

definition js_gt :: "jsnum \<Rightarrow> jsnum \<Rightarrow> bool" where
  "js_gt a b = js_lt b a"

definition js_le :: "jsnum \<Rightarrow> jsnum \<Rightarrow> bool" where
  "js_le a b \<longleftrightarrow> a \<noteq> NaN \<and> b \<noteq> NaN \<and> \<not> js_lt b a"

text \<open>\<^verbatim>\<open>a != b\<close> on two Numbers.\<close>

definition js_ne :: "jsnum \<Rightarrow> jsnum \<Rightarrow> bool" where
  "js_ne a b \<longleftrightarrow> a = NaN \<or> b = NaN \<or> js_lt a b \<or> js_lt b a"

text \<open>ToBoolean: \<^verbatim>\<open>!x\<close> is true exactly for NaN and the two zeros.\<close>

fun truthy :: "jsnum \<Rightarrow> bool" where
  "truthy NaN = False"
| "truthy NZero = False"
| "truthy (Fin x) = (x \<noteq> 0)"
| "truthy _ = True"

text \<open>\<^verbatim>\<open>a || b\<close>.\<close>

definition js_or :: "jsnum \<Rightarrow> jsnum \<Rightarrow> jsnum" where
  "js_or a b = (if truthy a then a else b)"

text \<open>\<^verbatim>\<open>x === null\<close> and \<^verbatim>\<open>x === undefined\<close> for a Number \<open>x\<close>: strict equality
  across types is false, also for NaN.\<close>

definition strict_eq_null :: "jsnum \<Rightarrow> bool" where
  "strict_eq_null x = False"

definition strict_eq_undefined :: "jsnum \<Rightarrow> bool" where
  "strict_eq_undefined x = False"

fun Math_abs :: "jsnum \<Rightarrow> jsnum" where
  "Math_abs NaN = NaN"
| "Math_abs PInf = PInf"
| "Math_abs NInf = PInf"
| "Math_abs NZero = Fin 0"
| "Math_abs (Fin x) = Fin \<bar>x\<bar>"

text \<open>\<^verbatim>\<open>Math.round\<close>: the integer closest to \<open>x\<close>, of two equally close ones the one
  nearer to \<open>+\<infinity>\<close>; \<open>-0\<close> for \<open>-0.5 \<le> x < 0\<close>.\<close>

definition nearest_int_up :: "rat \<Rightarrow> int" where
  "nearest_int_up x = (let f = \<lfloor>x\<rfloor> in if x - of_int f < 1 / 2 then f else f + 1)"

fun Math_round :: "jsnum \<Rightarrow> jsnum" where
  "Math_round (Fin x) =
     (let n = nearest_int_up x in if n = 0 then zero_of (x < 0) else Fin (of_int n))"
| "Math_round a = a"

fun Math_floor :: "jsnum \<Rightarrow> jsnum" where
  "Math_floor (Fin x) = Fin (of_int \<lfloor>x\<rfloor>)"
| "Math_floor a = a"

text \<open>
  \<^verbatim>\<open>x.toFixed(1)\<close> for \<open>0 \<le> a < 10\<^sup>2\<^sup>1\<close>: the integer \<open>n\<close> for which \<open>n / 10 - a\<close> is as
  close to zero as possible, the larger one when there are two.
\<close>

definition toFixed1_digits :: "rat \<Rightarrow> int" where
  "toFixed1_digits a =
     (let lo = \<lfloor>a * 10\<rfloor>; hi = lo + 1
      in if \<bar>of_int hi / 10 - a\<bar> \<le> \<bar>of_int lo / 10 - a\<bar> then hi else lo)"

text \<open>
  \<^verbatim>\<open>parseFloat(x.toFixed(1))\<close>. \<^verbatim>\<open>toFixed\<close> prints NaN and the infinities by name and
  \<^verbatim>\<open>parseFloat\<close> reads them back; \<open>-0\<close> prints as \<^verbatim>\<open>0.0\<close>; a value of magnitude at least
  \<open>10\<^sup>2\<^sup>1\<close> prints in the round-trip notation of \<^verbatim>\<open>String(x)\<close>; any other value prints
  as its sign and the digits of \<open>toFixed1_digits\<close>, which \<^verbatim>\<open>parseFloat\<close> reads as the
  nearest Number (\<^verbatim>\<open>-0.0\<close> as \<open>-0\<close>).
\<close>

fun parseFloat_toFixed1 :: "jsnum \<Rightarrow> jsnum" where
  "parseFloat_toFixed1 NaN = NaN"
| "parseFloat_toFixed1 PInf = PInf"
| "parseFloat_toFixed1 NInf = NInf"
| "parseFloat_toFixed1 NZero = Fin 0"
| "parseFloat_toFixed1 (Fin x) =
     (if 10 ^ 21 \<le> \<bar>x\<bar> then Fin x
      else (let n = toFixed1_digits \<bar>x\<bar>
            in if x < 0 then js_round True (- (of_int n / 10)) else js_round False (of_int n / 10)))"


section \<open>The quiz: data\<close>

record food =
  name :: string
  servingSize :: string
  servingsPerContainer :: jsnum
  calories :: jsnum
  totalCarbs :: jsnum
  fiber :: jsnum
  sugars :: jsnum
  protein :: jsnum
  portions :: "jsnum list"

definition foodDatabase :: "food list" where
  "foodDatabase =
    [\<lparr>name = ''Cheerios Cereal'', servingSize = ''1 cup (28g)'', servingsPerContainer = Fin 14,
       calories = Fin 100, totalCarbs = Fin 20, fiber = Fin 3, sugars = Fin 1, protein = Fin 3,
       portions = [Fin (1 / 2), Fin 1, Fin (3 / 2), Fin 2]\<rparr>,
     \<lparr>name = ''Kraft Mac & Cheese'', servingSize = ''1 cup prepared (189g)'', servingsPerContainer = Fin 3,
       calories = Fin 350, totalCarbs = Fin 47, fiber = Fin 2, sugars = Fin 10, protein = Fin 11,
       portions = [Fin (1 / 2), Fin 1, Fin (3 / 2), Fin 2]\<rparr>,
     \<lparr>name = ''Apple (Medium)'', servingSize = ''1 medium apple (182g)'', servingsPerContainer = Fin 1,
       calories = Fin 95, totalCarbs = Fin 25, fiber = Fin 4, sugars = Fin 19, protein = Fin 0,
       portions = [Fin (1 / 2), Fin 1, Fin (3 / 2), Fin 2]\<rparr>,
     \<lparr>name = ''White Bread'', servingSize = ''2 slices (52g)'', servingsPerContainer = Fin 10,
       calories = Fin 140, totalCarbs = Fin 26, fiber = Fin 1, sugars = Fin 3, protein = Fin 5,
       portions = [Fin 1, Fin 2, Fin 3, Fin 4]\<rparr>,
     \<lparr>name = ''Peanut Butter'', servingSize = ''2 tbsp (32g)'', servingsPerContainer = Fin 15,
       calories = Fin 190, totalCarbs = Fin 7, fiber = Fin 2, sugars = Fin 3, protein = Fin 8,
       portions = [Fin 1, Fin 2, Fin 3]\<rparr>,
     \<lparr>name = ''Orange Juice'', servingSize = ''8 fl oz (240mL)'', servingsPerContainer = Fin 8,
       calories = Fin 110, totalCarbs = Fin 26, fiber = Fin 0, sugars = Fin 22, protein = Fin 2,
       portions = [Fin (1 / 2), Fin 1, Fin (3 / 2), Fin 2]\<rparr>,
     \<lparr>name = ''Pizza (Frozen)'', servingSize = ''1/4 pizza (120g)'', servingsPerContainer = Fin 4,
       calories = Fin 320, totalCarbs = Fin 38, fiber = Fin 2, sugars = Fin 5, protein = Fin 13,
       portions = [Fin 1, Fin 2, Fin 3]\<rparr>,
     \<lparr>name = ''Banana (Medium)'', servingSize = ''1 medium banana (118g)'', servingsPerContainer = Fin 1,
       calories = Fin 105, totalCarbs = Fin 27, fiber = Fin 3, sugars = Fin 14, protein = Fin 1,
       portions = [Fin (1 / 2), Fin 1, Fin (3 / 2), Fin 2]\<rparr>,
     \<lparr>name = ''Yogurt (Vanilla)'', servingSize = ''1 container (170g)'', servingsPerContainer = Fin 1,
       calories = Fin 150, totalCarbs = Fin 25, fiber = Fin 0, sugars = Fin 19, protein = Fin 6,
       portions = [Fin (1 / 2), Fin 1, Fin (3 / 2), Fin 2]\<rparr>,
     \<lparr>name = ''Spaghetti with Sauce'', servingSize = ''1 cup (249g)'', servingsPerContainer = Fin 4,
       calories = Fin 260, totalCarbs = Fin 43, fiber = Fin 4, sugars = Fin 9, protein = Fin 9,
       portions = [Fin (1 / 2), Fin 1, Fin (3 / 2), Fin 2]\<rparr>,
     \<lparr>name = ''Granola Bar'', servingSize = ''1 bar (35g)'', servingsPerContainer = Fin 6,
       calories = Fin 140, totalCarbs = Fin 23, fiber = Fin 2, sugars = Fin 8, protein = Fin 3,
       portions = [Fin 1, Fin 2, Fin 3]\<rparr>,
     \<lparr>name = ''Chocolate Chip Cookies'', servingSize = ''3 cookies (34g)'', servingsPerContainer = Fin 10,
       calories = Fin 160, totalCarbs = Fin 22, fiber = Fin 1, sugars = Fin 11, protein = Fin 2,
       portions = [Fin 1, Fin 2, Fin 3, Fin 4]\<rparr>]"

record settings =
  carbRatio :: jsnum
  correctionFactor :: jsnum
  targetBG :: jsnum

record session_stats =
  totalAttempts :: jsnum
  correctAnswers :: jsnum

text \<open>The globals of the script. \<open>currentFood = None\<close> is \<^verbatim>\<open>null\<close> (or \<^verbatim>\<open>undefined\<close>),
  \<open>currentPortion = None\<close> is \<^verbatim>\<open>undefined\<close>.\<close>

record quiz_state =
  currentFood :: "food option"
  currentPortion :: "jsnum option"
  currentBG :: jsnum
  userSettings :: settings
  stats :: session_stats

definition initial_state :: quiz_state where
  "initial_state =
     \<lparr>currentFood = None, currentPortion = Some (Fin 1), currentBG = Fin 120,
      userSettings = \<lparr>carbRatio = Fin 10, correctionFactor = Fin 50, targetBG = Fin 100\<rparr>,
      stats = \<lparr>totalAttempts = Fin 0, correctAnswers = Fin 0\<rparr>\<rparr>"

datatype js_error = Alert string | TypeError

text \<open>ToNumber of a value that may be \<^verbatim>\<open>undefined\<close>.\<close>

fun to_number :: "jsnum option \<Rightarrow> jsnum" where
  "to_number None = NaN"
| "to_number (Some x) = x"

text \<open>\<^verbatim>\<open>xs[i]\<close> for a Number \<open>i\<close>: the element when \<open>i\<close> is an integer index in range
  (\<open>-0\<close> is the key \<^verbatim>\<open>"0"\<close>), \<^verbatim>\<open>undefined\<close> otherwise.\<close>

fun js_index :: "'a list \<Rightarrow> jsnum \<Rightarrow> 'a option" where
  "js_index xs (Fin i) =
     (if of_int \<lfloor>i\<rfloor> = i \<and> 0 \<le> i \<and> \<lfloor>i\<rfloor> < int (length xs) then Some (xs ! nat \<lfloor>i\<rfloor>) else None)"
| "js_index xs NZero = (case xs of [] \<Rightarrow> None | x # _ \<Rightarrow> Some x)"
| "js_index xs _ = None"

definition array_length :: "'a list \<Rightarrow> jsnum" where
  "array_length xs = Fin (of_nat (length xs))"

section \<open>The quiz: operations\<close>

text \<open>
  \<^verbatim>\<open>generateQuestion\<close>. The three calls of \<^verbatim>\<open>Math.random()\<close> are the parameters \<open>r1\<close>,
  \<open>r2\<close>, \<open>r3\<close>, in the order of the calls. Reading \<^verbatim>\<open>portions\<close> of an \<^verbatim>\<open>undefined\<close>
  food throws.
\<close>

definition generateQuestion :: "quiz_state \<Rightarrow> jsnum \<Rightarrow> jsnum \<Rightarrow> jsnum \<Rightarrow> js_error + quiz_state" where
  "generateQuestion st r1 r2 r3 =
     (case js_index foodDatabase (Math_floor (js_mul r1 (array_length foodDatabase))) of
        None \<Rightarrow> Inl TypeError
      | Some fd \<Rightarrow>
          (let portionIndex = Math_floor (js_mul r2 (array_length (portions fd)));
               portion = js_index (portions fd) portionIndex;
               bg = js_add (Math_floor (js_mul r3 (js_add (js_sub (Fin 280) (Fin 80)) (Fin 1)))) (Fin 80);
               bg5 = js_mul (Math_round (js_div bg (Fin 5))) (Fin 5)
           in Inr (st\<lparr>currentFood := Some fd, currentPortion := portion, currentBG := bg5\<rparr>)))"

text \<open>\<^verbatim>\<open>startQuiz\<close>: the three arguments are the \<^verbatim>\<open>parseFloat\<close> results of the settings
  fields.\<close>

definition startQuiz ::
  "quiz_state \<Rightarrow> jsnum \<Rightarrow> jsnum \<Rightarrow> jsnum \<Rightarrow> jsnum \<Rightarrow> jsnum \<Rightarrow> jsnum \<Rightarrow> js_error + quiz_state" where
  "startQuiz st cr cf tb r1 r2 r3 =
     (if \<not> truthy cr \<or> \<not> truthy cf \<or> \<not> truthy tb
      then Inl (Alert ''Please fill in all your dosing settings!'')
      else if js_le cr (Fin 0) \<or> js_le cf (Fin 0) \<or> js_lt tb (Fin 70) \<or> js_gt tb (Fin 180)
      then Inl (Alert ''Please enter realistic values for your settings.'')
      else generateQuestion
             (st\<lparr>userSettings := \<lparr>carbRatio = cr, correctionFactor = cf, targetBG = tb\<rparr>\<rparr>) r1 r2 r3)"

datatype feedback_type = Correct | Close | Incorrect

record feedback_data =
  userCarbsEating :: jsnum
  userInsulinCarbs :: jsnum
  userInsulinCorrection :: jsnum
  userTotalDose :: jsnum
  correctCarbs :: jsnum
  correctInsulinCarbs :: jsnum
  correctInsulinCorrection :: jsnum
  correctTotalDose :: jsnum

text \<open>What \<^verbatim>\<open>displayFeedback\<close> renders from its data: the dose shown and, for each of the
  four steps, whether the step is marked as right.\<close>

record explanation =
  shownDose :: jsnum
  carbsRight :: bool
  insulinCarbsRight :: bool
  correctionRight :: bool
  totalRight :: bool

definition displayFeedback :: "feedback_data \<Rightarrow> explanation" where
  "displayFeedback d =
     \<lparr>shownDose = correctTotalDose d,
      carbsRight = (\<not> js_ne (userCarbsEating d) (correctCarbs d)),
      insulinCarbsRight =
        (\<not> js_gt (Math_abs (js_sub (userInsulinCarbs d) (correctInsulinCarbs d))) (lit (3 / 10))),
      correctionRight =
        (\<not> js_gt (Math_abs (js_sub (userInsulinCorrection d) (correctInsulinCorrection d))) (lit (3 / 10))),
      totalRight =
        (\<not> js_gt (Math_abs (js_sub (userTotalDose d) (correctTotalDose d))) (lit (3 / 10)))\<rparr>"

text \<open>\<^verbatim>\<open>updateStats\<close>: the three texts written to the page, the accuracy without its
  percent sign.\<close>

record stats_display =
  shownAttempts :: jsnum
  shownCorrect :: jsnum
  accuracy :: jsnum

definition updateStats :: "session_stats \<Rightarrow> stats_display" where
  "updateStats s =
     \<lparr>shownAttempts = totalAttempts s,
      shownCorrect = correctAnswers s,
      accuracy =
        (if js_gt (totalAttempts s) (Fin 0)
         then Math_round (js_mul (js_div (correctAnswers s) (totalAttempts s)) (Fin 100))
         else Fin 0)\<rparr>"

text \<open>
  What one call of \<^verbatim>\<open>checkAnswer\<close> leaves behind: the tier, the index of the message
  drawn for it, the data handed to \<^verbatim>\<open>displayFeedback\<close> and what that renders, the statistics
  shown, and the globals.
\<close>

record answer_result =
  feedbackType :: feedback_type
  messageIndex :: jsnum
  data :: feedback_data
  feedback :: explanation
  shownStats :: stats_display
  state :: quiz_state

text \<open>
  \<^verbatim>\<open>checkAnswer\<close>. The first four arguments are the \<^verbatim>\<open>parseFloat\<close> results of the fields
  \<^verbatim>\<open>carbs-eating\<close>, \<^verbatim>\<open>insulin-carbs\<close>, \<^verbatim>\<open>insulin-correction\<close> and \<^verbatim>\<open>total-dose\<close> (NaN for
  an empty or non-numeric field); \<open>rnd\<close> is the value of the one \<^verbatim>\<open>Math.random()\<close> call.
\<close>

definition checkAnswer ::
  "quiz_state \<Rightarrow> jsnum \<Rightarrow> jsnum \<Rightarrow> jsnum \<Rightarrow> jsnum \<Rightarrow> jsnum \<Rightarrow> js_error + answer_result" where
  "checkAnswer st carbs_eating insulin_carbs insulin_correction total_dose rnd =
     (let userCarbsEating = carbs_eating;
          userInsulinCarbs = insulin_carbs;
          userInsulinCorrection = js_or insulin_correction (Fin 0);
          userTotalDose = total_dose
      in if \<not> truthy userCarbsEating \<or> \<not> truthy userInsulinCarbs
            \<or> strict_eq_null userTotalDose \<or> strict_eq_undefined userTotalDose
         then Inl (Alert ''Please fill in all fields before checking your answer!'')
         else
           (case currentFood st of
              None \<Rightarrow> Inl TypeError
            | Some fd \<Rightarrow>
               (let correctCarbs =
                      Math_round (js_mul (js_sub (totalCarbs fd) (fiber fd)) (to_number (currentPortion st)));
                    correctInsulinCarbs =
                      parseFloat_toFixed1 (js_div correctCarbs (carbRatio (userSettings st)));
                    bgDifference = js_sub (currentBG st) (targetBG (userSettings st));
                    correctInsulinCorrection =
                      (if js_gt bgDifference (Fin 0)
                       then parseFloat_toFixed1 (js_div bgDifference (correctionFactor (userSettings st)))
                       else Fin 0);
                    correctTotalDose =
                      parseFloat_toFixed1 (js_add correctInsulinCarbs correctInsulinCorrection);
                    doseDifference = Math_abs (js_sub userTotalDose correctTotalDose);
                    carbsDifference = Math_abs (js_sub userCarbsEating correctCarbs);
                    stats1 = (stats st)\<lparr>totalAttempts := js_add (totalAttempts (stats st)) (Fin 1)\<rparr>;
                    (feedbackType, stats2, message) =
                      (if js_le doseDifference (lit (3 / 10)) \<and> js_le carbsDifference (Fin 2)
                       then (Correct,
                             stats1\<lparr>correctAnswers := js_add (correctAnswers stats1) (Fin 1)\<rparr>,
                             Math_floor (js_mul rnd (Fin 6)))
                       else if js_le doseDifference (Fin 1) \<and> js_le carbsDifference (Fin 5)
                       then (Close, stats1, Math_floor (js_mul rnd (Fin 5)))
                       else (Incorrect, stats1, Math_floor (js_mul rnd (Fin 5))));
                    d = \<lparr>userCarbsEating = userCarbsEating, userInsulinCarbs = userInsulinCarbs,
                         userInsulinCorrection = userInsulinCorrection, userTotalDose = userTotalDose,
                         correctCarbs = correctCarbs, correctInsulinCarbs = correctInsulinCarbs,
                         correctInsulinCorrection = correctInsulinCorrection,
                         correctTotalDose = correctTotalDose\<rparr>
                in Inr \<lparr>feedbackType = feedbackType, messageIndex = message, data = d,
                        feedback = displayFeedback d, shownStats = updateStats stats2,
                        state = st\<lparr>stats := stats2\<rparr>\<rparr>)))"


section \<open>Observing a call\<close>

text \<open>The tier a call of \<^verbatim>\<open>checkAnswer\<close> assigned, if it graded at all, and the session
  statistics after the call (unchanged when the call stopped at the alert or threw).\<close>

definition tier_of :: "js_error + answer_result \<Rightarrow> feedback_type option" where
  "tier_of res = (case res of Inl _ \<Rightarrow> None | Inr r \<Rightarrow> Some (feedbackType r))"

definition stats_after :: "quiz_state \<Rightarrow> js_error + answer_result \<Rightarrow> session_stats" where
  "stats_after st res = (case res of Inl _ \<Rightarrow> stats st | Inr r \<Rightarrow> stats (state r))"

text \<open>The first example scenario: a fresh session showing one serving of the first food of
  the catalog (Cheerios) at a blood glucose of 150, with the default settings 10, 50, 100.\<close>

definition scenario1 :: quiz_state where
  "scenario1 =
     initial_state\<lparr>currentFood := Some (foodDatabase ! 0), currentPortion := Some (Fin 1),
                    currentBG := Fin 150\<rparr>"

text \<open>The part of the data handed to \<^verbatim>\<open>displayFeedback\<close> that a call computed, if it
  graded.\<close>

definition data_of :: "js_error + answer_result \<Rightarrow> feedback_data option" where
  "data_of res = (case res of Inl _ \<Rightarrow> None | Inr r \<Rightarrow> Some (data r))"


text \<open>The first example scenario at a blood glucose of 185 with a correction factor of 100.\<close>

definition scenario_bg185 :: quiz_state where
  "scenario_bg185 =
     scenario1\<lparr>currentBG := Fin 185,
                 userSettings := (userSettings scenario1)\<lparr>correctionFactor := Fin 100\<rparr>\<rparr>"

text \<open>
  Questions and settings in whole numbers. \<open>whole a\<close>: the Number \<open>a\<close> is a whole number
  from 0 to below \<open>2\<^sup>2\<^sup>0\<close>. \<open>plain_question st\<close>: the question shown is a food of the catalog in
  one of its portions, as \<^verbatim>\<open>generateQuestion\<close> draws it, the blood glucose and the target
  are whole numbers, and the carb ratio and the correction factor are whole numbers other
  than 0.
\<close>

definition whole :: "jsnum \<Rightarrow> bool" where
  "whole a = (case a of Fin q \<Rightarrow> of_int \<lfloor>q\<rfloor> = q \<and> 0 \<le> q \<and> q < 2 ^ 20 | _ \<Rightarrow> False)"

definition plain_question :: "quiz_state \<Rightarrow> bool" where
  "plain_question st \<longleftrightarrow>
     (case currentFood st of
        None \<Rightarrow> False
      | Some fd \<Rightarrow>
          fd \<in> set foodDatabase
          \<and> (case currentPortion st of None \<Rightarrow> False | Some p \<Rightarrow> p \<in> set (portions fd)))
     \<and> whole (currentBG st) \<and> whole (targetBG (userSettings st))
     \<and> whole (carbRatio (userSettings st)) \<and> truthy (carbRatio (userSettings st))
     \<and> whole (correctionFactor (userSettings st)) \<and> truthy (correctionFactor (userSettings st))"

section \<open>Well-formed Numbers\<close>

text \<open>Every Number is NaN, an infinity, a zero or a binary64 value.\<close>

fun wf_num :: "jsnum \<Rightarrow> bool" where
  "wf_num (Fin x) = is_double x"
| "wf_num _ = True"

fun finite_num :: "jsnum \<Rightarrow> bool" where
  "finite_num NZero = True"
| "finite_num (Fin x) = True"
| "finite_num _ = False"

text \<open>What \<^verbatim>\<open>Math.random()\<close> returns: a binary64 value in \<open>[0, 1)\<close>.\<close>

fun is_random :: "jsnum \<Rightarrow> bool" where
  "is_random (Fin q) = (is_double q \<and> 0 \<le> q \<and> q < 1)"
| "is_random _ = False"

section \<open>The specification's arithmetic\<close>

text \<open>
  The specification rounds dose quantities to one decimal place, half away from zero, and
  carbs to the nearest integer gram (half up in its example, half away from zero in its
  description of the rounding rules). These definitions follow the specification's words,
  not the code. \<open>half_away_1dp\<close> and \<open>half_away_int\<close> are the two roundings on exact
  values. The \<open>spec_round\<close> functions apply them to one Number: they round the value the
  Number holds, give the nearest Number to the rounded value, and leave NaN and the
  infinities as they are. The specification is silent on signed zeros: here a zero result
  of the integer rounding takes the sign of its argument, and a zero result of the decimal
  rounding is negative exactly when the argument's value is.
\<close>

definition half_away_1dp :: "rat \<Rightarrow> rat" where
  "half_away_1dp x = sgn x * of_int \<lfloor>\<bar>x\<bar> * 10 + 1 / 2\<rfloor> / 10"

definition half_away_int :: "rat \<Rightarrow> int" where
  "half_away_int x = (if x < 0 then - \<lfloor>\<bar>x\<bar> + 1 / 2\<rfloor> else \<lfloor>\<bar>x\<bar> + 1 / 2\<rfloor>)"

definition spec_round_1dp :: "jsnum \<Rightarrow> jsnum" where
  "spec_round_1dp a =
     (if finite_num a then js_round (val a < 0) (half_away_1dp (val a)) else a)"

definition spec_round_int :: "jsnum \<Rightarrow> jsnum" where
  "spec_round_int a =
     (if finite_num a then js_round (sign_bit a) (of_int (round (val a))) else a)"

text \<open>Integer rounding half away from zero, as the specification describes the rounding
  rules, on a Number.\<close>

definition spec_round_away_int :: "jsnum \<Rightarrow> jsnum" where
  "spec_round_away_int a =
     (if finite_num a then js_round (sign_bit a) (of_int (half_away_int (val a))) else a)"

text \<open>The first example scenario with a carb ratio of 20 in place of 10.\<close>

definition scenario_ratio20 :: quiz_state where
  "scenario_ratio20 = scenario1\<lparr>userSettings := (userSettings scenario1)\<lparr>carbRatio := Fin 20\<rparr>\<rparr>"

text \<open>
  The dose oracle as the specification words it (its section 4.3, steps 1 to 5), in exact
  arithmetic on the values the Numbers hold: the net carbs rounded to the nearest integer
  gram, the two doses and their sum rounded half away from zero to one decimal place, each
  step on the rounded result of the one before.
\<close>

record correct_dose =
  netCarbs :: int
  insulinForCarbs :: rat
  correctionDose :: rat
  totalDose :: rat

definition spec_correctionDose :: "rat \<Rightarrow> rat \<Rightarrow> rat \<Rightarrow> rat" where
  "spec_correctionDose bg target cf =
     (let bgDelta = bg - target in if bgDelta > 0 then half_away_1dp (bgDelta / cf) else 0)"

definition spec_computeCorrectDose :: "food \<Rightarrow> jsnum \<Rightarrow> jsnum \<Rightarrow> settings \<Rightarrow> correct_dose" where
  "spec_computeCorrectDose fd portionMultiplier bg s =
     (let nc = round ((val (totalCarbs fd) - val (fiber fd)) * val portionMultiplier);
          ifc = half_away_1dp (of_int nc / val (carbRatio s));
          cd = spec_correctionDose (val bg) (val (targetBG s)) (val (correctionFactor s));
          td = half_away_1dp (ifc + cd)
      in \<lparr>netCarbs = nc, insulinForCarbs = ifc, correctionDose = cd, totalDose = td\<rparr>)"

text \<open>\<open>x\<close> lies exactly halfway between two neighbouring multiples of \<open>0.1\<close>.\<close>

definition is_tie_1dp :: "rat \<Rightarrow> bool" where
  "is_tie_1dp x \<longleftrightarrow> frac (\<bar>x\<bar> * 10 + 1 / 2) = 0"

text \<open>The tier table of the specification (its section 4.4), on exact values, the first
  matching row winning; and the tier one row further down.\<close>

definition spec_gradeAttempt :: "rat \<Rightarrow> rat \<Rightarrow> rat \<Rightarrow> rat \<Rightarrow> feedback_type" where
  "spec_gradeAttempt userDose userCarbs correctDose correctNetCarbs =
     (if \<bar>userDose - correctDose\<bar> \<le> 3 / 10 \<and> \<bar>userCarbs - correctNetCarbs\<bar> \<le> 2 then Correct
      else if \<bar>userDose - correctDose\<bar> \<le> 1 \<and> \<bar>userCarbs - correctNetCarbs\<bar> \<le> 5 then Close
      else Incorrect)"



text \<open>The accuracy as the specification words it, on exact counts:
  \<open>round(100 * correctAnswers / totalAttempts)\<close>, and 0 without attempts.\<close>

definition spec_accuracyPercent :: "nat \<Rightarrow> nat \<Rightarrow> int" where
  "spec_accuracyPercent c t = (if t = 0 then 0 else round (100 * of_nat c / of_nat t :: rat))"

section \<open>Properties of the rounding\<close>

lemma pow2_powi: "pow2 e = 2 powi e"
  by (simp add: pow2_def power_int_def inverse_eq_divide power_one_over)

lemma pow2_pos: "0 < pow2 e"
  by (simp add: pow2_powi)

lemma pow2_add: "pow2 (a + b) = pow2 a * pow2 b"
  by (simp add: pow2_powi power_int_add)

lemma pow2_mono: "a \<le> b \<Longrightarrow> pow2 a \<le> pow2 b"
  by (simp add: pow2_powi power_int_increasing)

lemma pow2_strict_mono: "a < b \<Longrightarrow> pow2 a < pow2 b"
  by (simp add: pow2_powi power_int_strict_increasing)

lemma pow2_less_iff: "pow2 a < pow2 b \<longleftrightarrow> a < b"
  using pow2_mono[of b a] pow2_strict_mono[of a b] by (auto simp: not_less[symmetric])

lemma pow2_Suc: "pow2 (e + 1) = 2 * pow2 e"
  using pow2_add[of e 1] by (simp add: pow2_powi)

lemma pow2_pred: "pow2 (e - 1) = pow2 e / 2"
  using pow2_Suc[of "e - 1"] by simp

lemma ilog2_bounds:
  assumes "x \<noteq> 0"
  shows "pow2 (ilog2 x) \<le> \<bar>x\<bar>" and "\<bar>x\<bar> < pow2 (ilog2 x + 1)"
proof -
  obtain p q where pq: "quotient_of \<bar>x\<bar> = (p, q)" by (cases "quotient_of \<bar>x\<bar>")
  have q: "0 < q" using pq quotient_of_denom_pos by blast
  have xpq: "\<bar>x\<bar> = of_int p / of_int q" using pq quotient_of_div by blast
  have p: "0 < p"
  proof -
    have "0 < \<bar>x\<bar>" using assms by simp
    then have "0 < (of_int p :: rat) / of_int q" using xpq by simp
    then show ?thesis using q by (simp add: zero_less_divide_iff)
  qed
  define e where "e = bitlen p - bitlen q"
  have bp: "2 ^ nat (bitlen p - 1) \<le> p" "p < 2 ^ nat (bitlen p)" using bitlen_bounds[OF p] by auto
  have bq: "2 ^ nat (bitlen q - 1) \<le> q" "q < 2 ^ nat (bitlen q)" using bitlen_bounds[OF q] by auto
  have lp: "1 \<le> bitlen p" using p by (simp add: bitlen_alt_def)
  have lq: "1 \<le> bitlen q" using q by (simp add: bitlen_alt_def)
  have rp: "pow2 (bitlen p - 1) \<le> of_int p" "of_int p < pow2 (bitlen p)"
    using bp(1)[THEN of_int_le_iff[where 'a=rat, THEN iffD2]]
      bp(2)[THEN of_int_less_iff[where 'a=rat, THEN iffD2]] lp by (simp_all add: pow2_def)
  have rq: "pow2 (bitlen q - 1) \<le> of_int q" "of_int q < pow2 (bitlen q)"
    using bq(1)[THEN of_int_le_iff[where 'a=rat, THEN iffD2]]
      bq(2)[THEN of_int_less_iff[where 'a=rat, THEN iffD2]] lq by (simp_all add: pow2_def)
  have qpos: "(0::rat) < of_int q" using q by simp
  have lo: "pow2 (e - 1) \<le> \<bar>x\<bar>"
  proof -
    have "pow2 (e - 1) * of_int q \<le> pow2 (e - 1) * pow2 (bitlen q)"
      using rq(2) pow2_pos[of "e - 1"] by (simp add: less_imp_le)
    also have "\<dots> = pow2 (bitlen p - 1)" by (simp add: e_def flip: pow2_add)
    also have "\<dots> \<le> of_int p" by (rule rp)
    finally show ?thesis using qpos by (simp add: xpq pos_le_divide_eq)
  qed
  have hi: "\<bar>x\<bar> < pow2 (e + 1)"
  proof -
    have "of_int p < pow2 (bitlen p)" by (rule rp)
    also have "\<dots> = pow2 (e + 1) * pow2 (bitlen q - 1)" by (simp add: e_def flip: pow2_add)
    also have "\<dots> \<le> pow2 (e + 1) * of_int q"
      using rq(1) pow2_pos[of "e + 1"] by simp
    finally show ?thesis using qpos by (simp add: xpq pos_divide_less_eq)
  qed
  have il: "ilog2 x = (if pow2 e \<le> \<bar>x\<bar> then e else e - 1)"
    by (simp add: ilog2_def pq e_def Let_def)
  show "pow2 (ilog2 x) \<le> \<bar>x\<bar>" using lo by (simp add: il)
  show "\<bar>x\<bar> < pow2 (ilog2 x + 1)" using hi by (auto simp: il not_le)
qed

lemma ilog2_unique:
  assumes "pow2 e \<le> \<bar>x\<bar>" "\<bar>x\<bar> < pow2 (e + 1)"
  shows "ilog2 x = e"
proof -
  have x: "x \<noteq> 0" using assms(1) pow2_pos[of e] by auto
  have "pow2 (ilog2 x) < pow2 (e + 1)" using ilog2_bounds(1)[OF x] assms(2) by simp
  moreover have "pow2 e < pow2 (ilog2 x + 1)" using ilog2_bounds(2)[OF x] assms(1) by simp
  ultimately show ?thesis by (simp add: pow2_less_iff)
qed


lemma rhe_error: "\<bar>of_int (round_half_even x) - x\<bar> \<le> 1 / 2"
proof -
  define f where "f = \<lfloor>x\<rfloor>"
  define d where "d = x - of_int f"
  have d: "0 \<le> d" "d < 1" unfolding d_def f_def by linarith+
  have r: "round_half_even x =
      (if d < 1 / 2 then f else if 1 / 2 < d then f + 1 else if even f then f else f + 1)"
    by (simp add: round_half_even_def Let_def f_def d_def)
  have "\<bar>of_int (round_half_even x) - (of_int f + d)\<bar> \<le> 1 / 2"
    unfolding r using d by (auto simp: abs_if)
  then show ?thesis by (simp add: d_def)
qed

lemma rhe_of_int: "round_half_even (of_int n) = n"
  by (simp add: round_half_even_def)

lemma rhe_cases:
  "round_half_even x = \<lfloor>x\<rfloor> \<or> round_half_even x = \<lfloor>x\<rfloor> + 1"
  by (simp add: round_half_even_def Let_def)

lemma rhe_le: "x \<le> of_int n \<Longrightarrow> round_half_even x \<le> n"
proof -
  assume a: "x \<le> of_int n"
  show ?thesis
  proof (cases "x = of_int n")
    case True then show ?thesis by (simp add: rhe_of_int)
  next
    case False
    then have "x < of_int n" using a by simp
    then have "\<lfloor>x\<rfloor> < n" by (simp add: floor_less_iff)
    then show ?thesis using rhe_cases[of x] by auto
  qed
qed

lemma rhe_ge: "of_int n \<le> x \<Longrightarrow> n \<le> round_half_even x"
proof -
  assume "of_int n \<le> x"
  then have "n \<le> \<lfloor>x\<rfloor>" by (simp add: le_floor_iff)
  then show ?thesis using rhe_cases[of x] by auto
qed

lemma rhe_mono: "x \<le> y \<Longrightarrow> round_half_even x \<le> round_half_even y"
proof -
  assume xy: "x \<le> y"
  have fxy: "\<lfloor>x\<rfloor> \<le> \<lfloor>y\<rfloor>" using xy by (rule floor_mono)
  show ?thesis
  proof (cases "\<lfloor>x\<rfloor> = \<lfloor>y\<rfloor>")
    case True
    then show ?thesis using xy
      unfolding round_half_even_def Let_def by auto
  next
    case False
    then have "\<lfloor>x\<rfloor> + 1 \<le> \<lfloor>y\<rfloor>" using fxy by simp
    then show ?thesis using rhe_cases[of x] rhe_cases[of y] by auto
  qed
qed

lemma rhe_minus: "round_half_even (- x) = - round_half_even x"
proof (cases "x = of_int \<lfloor>x\<rfloor>")
  case True
  then obtain n where "x = of_int n" ..
  then show ?thesis by (simp add: rhe_of_int flip: of_int_minus)
next
  case False
  have fl: "\<lfloor>- x\<rfloor> = - \<lfloor>x\<rfloor> - 1"
    using False by (simp add: floor_minus ceiling_altdef)
  show ?thesis
    unfolding round_half_even_def Let_def fl by (auto simp: algebra_simps)
qed


lemma ilog2_minus: "ilog2 (- x) = ilog2 x"
  by (simp add: ilog2_def)

lemma quantum_exp_minus: "quantum_exp (- x) = quantum_exp x"
  by (simp add: quantum_exp_def ilog2_minus)

lemma fl_zero: "fl 0 = 0"
  by (simp add: fl_def)

lemma fl_minus: "fl (- x) = - fl x"
  by (simp add: fl_def quantum_exp_minus rhe_minus)

lemma fl_nonneg: "0 \<le> x \<Longrightarrow> 0 \<le> fl x"
proof -
  assume x: "0 \<le> x"
  have "0 \<le> x / pow2 (quantum_exp x)" using x pow2_pos[of "quantum_exp x"] by simp
  then have "0 \<le> round_half_even (x / pow2 (quantum_exp x))" using rhe_ge[of 0] by simp
  then show ?thesis using pow2_pos[of "quantum_exp x"] by (simp add: fl_def less_imp_le)
qed

lemma fl_nonpos: "x \<le> 0 \<Longrightarrow> fl x \<le> 0"
  using fl_nonneg[of "- x"] by (simp add: fl_minus)

lemma quantum_exp_ge: "- 1074 \<le> quantum_exp x"
  by (simp add: quantum_exp_def)

lemma ilog2_less: "x \<noteq> 0 \<Longrightarrow> \<bar>x\<bar> < pow2 e \<Longrightarrow> ilog2 x < e"
  using ilog2_bounds(1)[of x] by (simp flip: pow2_less_iff)

lemma ilog2_ge: "pow2 e \<le> \<bar>x\<bar> \<Longrightarrow> e \<le> ilog2 x"
proof -
  assume a: "pow2 e \<le> \<bar>x\<bar>"
  then have x: "x \<noteq> 0" using pow2_pos[of e] by auto
  have "pow2 e < pow2 (ilog2 x + 1)" using a ilog2_bounds(2)[OF x] by simp
  then show ?thesis by (simp add: pow2_less_iff)
qed

lemma fl_exact:
  assumes "x / pow2 (quantum_exp x) = of_int n"
  shows "fl x = x"
proof (cases "x = 0")
  case True then show ?thesis by (simp add: fl_def)
next
  case False
  have "x = of_int n * pow2 (quantum_exp x)"
    using assms pow2_pos[of "quantum_exp x"] by (simp add: field_simps)
  then show ?thesis using False assms by (simp add: fl_def rhe_of_int)
qed

lemma pow2_nonneg_int: "0 \<le> k \<Longrightarrow> pow2 k = of_int (2 ^ nat k)"
  by (simp add: pow2_def)

lemma fl_repr:
  assumes m: "\<bar>m\<bar> < 2 ^ 53" and k: "- 1074 \<le> k"
  shows "fl (of_int m * pow2 k) = of_int m * pow2 k"
proof (cases "m = 0")
  case True then show ?thesis by (simp add: fl_def)
next
  case False
  define x where "x = of_int m * pow2 k"
  have p53: "pow2 53 = 2 ^ 53" by (simp add: pow2_def)
  have x0: "x \<noteq> 0" using False pow2_pos[of k] by (simp add: x_def)
  have "\<bar>x\<bar> = of_int \<bar>m\<bar> * pow2 k" using pow2_pos[of k] by (simp add: x_def abs_mult)
  also have "\<dots> < of_int (2 ^ 53) * pow2 k"
    using m pow2_pos[of k] by (simp only: mult_less_cancel_right_pos of_int_less_iff)
  also have "\<dots> = pow2 (53 + k)" unfolding pow2_add p53 by simp
  finally have "ilog2 x < 53 + k" using ilog2_less[OF x0] by simp
  then have qk: "quantum_exp x \<le> k" using k by (simp add: quantum_exp_def)
  have "x / pow2 (quantum_exp x) = of_int m * pow2 (k - quantum_exp x)"
    using pow2_add[of "k - quantum_exp x" "quantum_exp x"] pow2_pos[of "quantum_exp x"]
    by (simp add: x_def field_simps)
  also have "\<dots> = of_int (m * 2 ^ nat (k - quantum_exp x))"
    using qk by (simp add: pow2_nonneg_int)
  finally show ?thesis unfolding x_def[symmetric] by (rule fl_exact)
qed

lemma fl_of_int: "\<bar>n\<bar> < 2 ^ 53 \<Longrightarrow> fl (of_int n) = of_int n"
  using fl_repr[of n 0] by (simp add: pow2_def)


lemma fl_eval:
  assumes "pow2 e \<le> \<bar>x\<bar>" "\<bar>x\<bar> < pow2 (e + 1)" "- 1022 \<le> e"
  shows "fl x = of_int (round_half_even (x / pow2 (e - 52))) * pow2 (e - 52)"
proof -
  have x: "x \<noteq> 0" using assms(1) pow2_pos[of e] by auto
  have "quantum_exp x = e - 52"
    using ilog2_unique[OF assms(1,2)] assms(3) by (simp add: quantum_exp_def)
  then show ?thesis using x by (simp add: fl_def)
qed

lemma ilog2_mono:
  assumes "x \<noteq> 0" "\<bar>x\<bar> \<le> \<bar>y\<bar>"
  shows "ilog2 x \<le> ilog2 y"
proof -
  have y: "y \<noteq> 0" using assms by auto
  have "pow2 (ilog2 x) < pow2 (ilog2 y + 1)"
    using ilog2_bounds(1)[OF assms(1)] ilog2_bounds(2)[OF y] assms(2) by linarith
  then show ?thesis by (simp add: pow2_less_iff)
qed

lemma fl_unfold: "x \<noteq> 0 \<Longrightarrow>
    fl x = of_int (round_half_even (x / pow2 (quantum_exp x))) * pow2 (quantum_exp x)"
  by (simp add: fl_def)

lemma pow2_53: "pow2 (q + 53) = of_int (2 ^ 53) * pow2 q"
proof -
  have "pow2 53 = of_int (2 ^ 53)" by (simp add: pow2_def)
  then show ?thesis by (simp only: pow2_add mult.commute)
qed

lemma pow2_52: "pow2 (q + 52) = of_int (2 ^ 52) * pow2 q"
proof -
  have "pow2 52 = of_int (2 ^ 52)" by (simp add: pow2_def)
  then show ?thesis by (simp only: pow2_add mult.commute)
qed

lemma fl_upper_pos:
  assumes "0 < x"
  shows "fl x \<le> pow2 (quantum_exp x + 53)"
proof -
  define q where "q = quantum_exp x"
  have qp: "0 < pow2 q" by (rule pow2_pos)
  have x0: "x \<noteq> 0" using assms by simp
  have "ilog2 x + 1 \<le> q + 53" by (simp add: q_def quantum_exp_def)
  then have "pow2 (ilog2 x + 1) \<le> pow2 (q + 53)" by (rule pow2_mono)
  then have "x < pow2 (q + 53)" using ilog2_bounds(2)[OF x0] assms by simp
  then have "x / pow2 q \<le> of_int (2 ^ 53)"
    using qp by (simp add: pow2_53 pos_divide_le_eq)
  then have "round_half_even (x / pow2 q) \<le> 2 ^ 53" by (rule rhe_le)
  then have "(of_int (round_half_even (x / pow2 q)) :: rat) \<le> of_int (2 ^ 53)"
    by (simp only: of_int_le_iff)
  then have "of_int (round_half_even (x / pow2 q)) * pow2 q \<le> of_int (2 ^ 53) * pow2 q"
    using qp by (simp only: mult_le_cancel_right_pos)
  then show ?thesis using x0 by (simp add: fl_def pow2_53 q_def)
qed

lemma fl_lower_pos:
  assumes "0 < x" "- 1022 \<le> ilog2 x"
  shows "pow2 (quantum_exp x + 52) \<le> fl x"
proof -
  define q where "q = quantum_exp x"
  have qp: "0 < pow2 q" by (rule pow2_pos)
  have x0: "x \<noteq> 0" using assms by simp
  have "q + 52 = ilog2 x" using assms(2) by (simp add: q_def quantum_exp_def)
  then have "pow2 (q + 52) \<le> x" using ilog2_bounds(1)[OF x0] assms(1) by simp
  then have "of_int (2 ^ 52) \<le> x / pow2 q"
    using qp by (simp add: pow2_52 pos_le_divide_eq)
  then have "2 ^ 52 \<le> round_half_even (x / pow2 q)" by (rule rhe_ge)
  then have "(of_int (2 ^ 52) :: rat) \<le> of_int (round_half_even (x / pow2 q))"
    by (simp only: of_int_le_iff)
  then have "of_int (2 ^ 52) * pow2 q \<le> of_int (round_half_even (x / pow2 q)) * pow2 q"
    using qp by (simp only: mult_le_cancel_right_pos)
  then show ?thesis using x0 by (simp add: fl_def pow2_52 q_def)
qed

lemma fl_mono_pos:
  assumes "0 < x" "x \<le> y"
  shows "fl x \<le> fl y"
proof -
  have x0: "x \<noteq> 0" and y0: "y \<noteq> 0" and yp: "0 < y" using assms by auto
  have il: "ilog2 x \<le> ilog2 y" using ilog2_mono[OF x0, of y] assms by simp
  then have qq: "quantum_exp x \<le> quantum_exp y" by (simp add: quantum_exp_def)
  show ?thesis
  proof (cases "quantum_exp x = quantum_exp y")
    case True
    define q where "q = quantum_exp y"
    have qp: "0 < pow2 q" by (rule pow2_pos)
    have "x / pow2 q \<le> y / pow2 q" using assms(2) qp by (simp add: divide_right_mono)
    then have "round_half_even (x / pow2 q) \<le> round_half_even (y / pow2 q)" by (rule rhe_mono)
    then have "(of_int (round_half_even (x / pow2 q)) :: rat) \<le> of_int (round_half_even (y / pow2 q))"
      by (simp only: of_int_le_iff)
    then have "of_int (round_half_even (x / pow2 q)) * pow2 q
        \<le> of_int (round_half_even (y / pow2 q)) * pow2 q"
      using qp by (simp only: mult_le_cancel_right_pos)
    then show ?thesis using x0 y0 True by (simp add: fl_def q_def)
  next
    case False
    then have lt: "quantum_exp x + 53 \<le> quantum_exp y + 52" using qq by simp
    then have "- 1022 \<le> ilog2 y" by (simp add: quantum_exp_def split: if_splits)
    then have "pow2 (quantum_exp y + 52) \<le> fl y" using fl_lower_pos[OF yp] by simp
    moreover have "fl x \<le> pow2 (quantum_exp x + 53)" by (rule fl_upper_pos[OF assms(1)])
    moreover have "pow2 (quantum_exp x + 53) \<le> pow2 (quantum_exp y + 52)"
      using lt by (rule pow2_mono)
    ultimately show ?thesis by linarith
  qed
qed

lemma fl_mono: "x \<le> y \<Longrightarrow> fl x \<le> fl y"
proof -
  assume xy: "x \<le> y"
  consider "0 < x" | "x \<le> 0" "0 \<le> y" | "y < 0" by linarith
  then show ?thesis
  proof cases
    case 1 then show ?thesis using xy by (rule fl_mono_pos)
  next
    case 2 then show ?thesis using fl_nonpos[of x] fl_nonneg[of y] by linarith
  next
    case 3
    then have "fl (- y) \<le> fl (- x)" using xy fl_mono_pos[of "- y" "- x"] by simp
    then show ?thesis by (simp add: fl_minus)
  qed
qed

lemma fl_error: "x \<noteq> 0 \<Longrightarrow> \<bar>fl x - x\<bar> \<le> pow2 (quantum_exp x) / 2"
proof -
  assume x0: "x \<noteq> 0"
  define q where "q = quantum_exp x"
  have qp: "0 < pow2 q" by (rule pow2_pos)
  have "fl x - x = (of_int (round_half_even (x / pow2 q)) - x / pow2 q) * pow2 q"
    using x0 qp by (simp add: fl_def q_def left_diff_distrib)
  then have "\<bar>fl x - x\<bar> = \<bar>of_int (round_half_even (x / pow2 q)) - x / pow2 q\<bar> * pow2 q"
    using qp by (simp only: abs_mult abs_of_pos)
  also have "\<dots> \<le> 1 / 2 * pow2 q"
    using rhe_error[of "x / pow2 q"] qp by (simp only: mult_le_cancel_right_pos)
  finally show ?thesis by (simp add: q_def)
qed

lemma fl_multiple: "\<exists>n. fl x = of_int n * pow2 (quantum_exp x) \<and> \<bar>n\<bar> \<le> 2 ^ 53"
proof (cases "x = 0")
  case True
  then show ?thesis by (intro exI[of _ 0]) (simp add: fl_def)
next
  case False
  define q where "q = quantum_exp x"
  define n where "n = round_half_even (x / pow2 q)"
  have qp: "0 < pow2 q" by (rule pow2_pos)
  have "ilog2 x + 1 \<le> q + 53" by (simp add: q_def quantum_exp_def)
  then have "pow2 (ilog2 x + 1) \<le> pow2 (q + 53)" by (rule pow2_mono)
  then have "\<bar>x\<bar> < pow2 (q + 53)" using ilog2_bounds(2)[OF False] by simp
  then have "\<bar>x\<bar> / pow2 q \<le> of_int (2 ^ 53)"
    using qp by (simp add: pow2_53 pos_divide_le_eq)
  then have "\<bar>x / pow2 q\<bar> \<le> of_int (2 ^ 53)" using qp by (simp add: abs_divide)
  then have "x / pow2 q \<le> of_int (2 ^ 53)" "of_int (- (2 ^ 53)) \<le> x / pow2 q"
    by linarith+
  then have "n \<le> 2 ^ 53" "- (2 ^ 53) \<le> n"
    unfolding n_def using rhe_le[of "x / pow2 q" "2 ^ 53"] rhe_ge[of "- (2 ^ 53)" "x / pow2 q"]
    by simp_all
  then have "\<bar>n\<bar> \<le> 2 ^ 53" by simp
  moreover have "fl x = of_int n * pow2 q" using False by (simp add: fl_def n_def q_def)
  ultimately show ?thesis unfolding q_def by blast
qed

lemma fl_idem: "fl (fl x) = fl x"
proof -
  obtain n where n: "fl x = of_int n * pow2 (quantum_exp x)" "\<bar>n\<bar> \<le> 2 ^ 53"
    using fl_multiple by blast
  have q: "- 1074 \<le> quantum_exp x" by (rule quantum_exp_ge)
  show ?thesis
  proof (cases "\<bar>n\<bar> < 2 ^ 53")
    case True
    then show ?thesis unfolding n(1) using q by (rule fl_repr)
  next
    case False
    then have "n = 2 ^ 53 \<or> n = - (2 ^ 53)" using n(2) by linarith
    then have "fl x = of_int (n div 2) * pow2 (quantum_exp x + 1)" "\<bar>n div 2\<bar> < 2 ^ 53"
      unfolding n(1) pow2_Suc by auto
    moreover have "- 1074 \<le> quantum_exp x + 1" using q by simp
    ultimately show ?thesis using fl_repr[of "n div 2" "quantum_exp x + 1"] by simp
  qed
qed

lemma js_round_cases:
  "js_round neg x = PInf \<or> js_round neg x = NInf \<or> js_round neg x = NZero
   \<or> js_round neg x = Fin 0 \<or> (js_round neg x = Fin (fl x) \<and> fl x \<noteq> 0 \<and> \<bar>fl x\<bar> < pow2 1024)"
  by (auto simp: js_round_def Let_def inf_of_def zero_of_def not_le)

lemma is_double_0: "is_double 0"
  by (simp add: is_double_def fl_def pow2_pos)

lemma wf_js_round: "wf_num (js_round neg x)"
  using js_round_cases[of neg x] is_double_0 by (auto simp: is_double_def fl_idem)

lemma double_large_int:
  assumes "fl x = x" "2 ^ 52 \<le> \<bar>x\<bar>"
  shows "\<exists>n. x = of_int n"
proof -
  have x0: "x \<noteq> 0" using assms(2) by auto
  have "pow2 52 \<le> \<bar>x\<bar>" using assms(2) by (simp add: pow2_def)
  then have "52 \<le> ilog2 x" by (rule ilog2_ge)
  then have q: "0 \<le> quantum_exp x" by (simp add: quantum_exp_def)
  have "x = of_int (round_half_even (x / pow2 (quantum_exp x))) * pow2 (quantum_exp x)"
    using assms(1) x0 by (simp add: fl_def)
  also have "\<dots> = of_int (round_half_even (x / pow2 (quantum_exp x)) * 2 ^ nat (quantum_exp x))"
    using q by (simp add: pow2_nonneg_int)
  finally show ?thesis by blast
qed

section \<open>Evaluating the arithmetic on numerals\<close>

lemma fl_abs_le:
  assumes "\<bar>x\<bar> \<le> of_int m * pow2 k" "\<bar>m\<bar> < 2 ^ 53" "- 1074 \<le> k"
  shows "\<bar>fl x\<bar> \<le> of_int m * pow2 k"
proof -
  have r: "fl (of_int m * pow2 k) = of_int m * pow2 k" using assms(2,3) by (rule fl_repr)
  have "x \<le> of_int m * pow2 k" "- (of_int m * pow2 k) \<le> x" using assms(1) by linarith+
  then have "fl x \<le> fl (of_int m * pow2 k)" "fl (- (of_int m * pow2 k)) \<le> fl x"
    by (simp_all add: fl_mono)
  then show ?thesis by (simp add: fl_minus r abs_le_iff)
qed

lemma fl_small_abs: "\<bar>x\<bar> \<le> 2 ^ 52 \<Longrightarrow> \<bar>fl x\<bar> \<le> 2 ^ 52"
  using fl_abs_le[of x "2 ^ 52" 0] by (simp add: pow2_def)

lemma pow2_1024_gt: "2 ^ 52 < pow2 1024"
proof -
  have "pow2 52 < pow2 1024" by (rule pow2_strict_mono) simp
  then show ?thesis by (simp add: pow2_nonneg_int)
qed

lemma js_round_small:
  "\<bar>x\<bar> \<le> 2 ^ 52 \<Longrightarrow>
   js_round neg x = (if fl x = 0 then zero_of (if x = 0 then neg else x < 0) else Fin (fl x))"
  using fl_small_abs[of x] pow2_1024_gt by (simp add: js_round_def Let_def)

lemma fl_binade_m8:
  "1 / 256 \<le> \<bar>x\<bar> \<Longrightarrow> \<bar>x\<bar> < 1 / 128 \<Longrightarrow> fl x = of_int (round_half_even (x * 1152921504606846976)) / 1152921504606846976"
  using fl_eval[of "-8" x] by (simp add: pow2_def)

lemma fl_binade_m7:
  "1 / 128 \<le> \<bar>x\<bar> \<Longrightarrow> \<bar>x\<bar> < 1 / 64 \<Longrightarrow> fl x = of_int (round_half_even (x * 576460752303423488)) / 576460752303423488"
  using fl_eval[of "-7" x] by (simp add: pow2_def)

lemma fl_binade_m6:
  "1 / 64 \<le> \<bar>x\<bar> \<Longrightarrow> \<bar>x\<bar> < 1 / 32 \<Longrightarrow> fl x = of_int (round_half_even (x * 288230376151711744)) / 288230376151711744"
  using fl_eval[of "-6" x] by (simp add: pow2_def)

lemma fl_binade_m5:
  "1 / 32 \<le> \<bar>x\<bar> \<Longrightarrow> \<bar>x\<bar> < 1 / 16 \<Longrightarrow> fl x = of_int (round_half_even (x * 144115188075855872)) / 144115188075855872"
  using fl_eval[of "-5" x] by (simp add: pow2_def)

lemma fl_binade_m4:
  "1 / 16 \<le> \<bar>x\<bar> \<Longrightarrow> \<bar>x\<bar> < 1 / 8 \<Longrightarrow> fl x = of_int (round_half_even (x * 72057594037927936)) / 72057594037927936"
  using fl_eval[of "-4" x] by (simp add: pow2_def)

lemma fl_binade_m3:
  "1 / 8 \<le> \<bar>x\<bar> \<Longrightarrow> \<bar>x\<bar> < 1 / 4 \<Longrightarrow> fl x = of_int (round_half_even (x * 36028797018963968)) / 36028797018963968"
  using fl_eval[of "-3" x] by (simp add: pow2_def)

lemma fl_binade_m2:
  "1 / 4 \<le> \<bar>x\<bar> \<Longrightarrow> \<bar>x\<bar> < 1 / 2 \<Longrightarrow> fl x = of_int (round_half_even (x * 18014398509481984)) / 18014398509481984"
  using fl_eval[of "-2" x] by (simp add: pow2_def)

lemma fl_binade_m1:
  "1 / 2 \<le> \<bar>x\<bar> \<Longrightarrow> \<bar>x\<bar> < 1 \<Longrightarrow> fl x = of_int (round_half_even (x * 9007199254740992)) / 9007199254740992"
  using fl_eval[of "-1" x] by (simp add: pow2_def)

lemma fl_binade_0:
  "1 \<le> \<bar>x\<bar> \<Longrightarrow> \<bar>x\<bar> < 2 \<Longrightarrow> fl x = of_int (round_half_even (x * 4503599627370496)) / 4503599627370496"
  using fl_eval[of "0" x] by (simp add: pow2_def)

lemma fl_binade_1:
  "2 \<le> \<bar>x\<bar> \<Longrightarrow> \<bar>x\<bar> < 4 \<Longrightarrow> fl x = of_int (round_half_even (x * 2251799813685248)) / 2251799813685248"
  using fl_eval[of "1" x] by (simp add: pow2_def)

lemma fl_binade_2:
  "4 \<le> \<bar>x\<bar> \<Longrightarrow> \<bar>x\<bar> < 8 \<Longrightarrow> fl x = of_int (round_half_even (x * 1125899906842624)) / 1125899906842624"
  using fl_eval[of "2" x] by (simp add: pow2_def)

lemma fl_binade_3:
  "8 \<le> \<bar>x\<bar> \<Longrightarrow> \<bar>x\<bar> < 16 \<Longrightarrow> fl x = of_int (round_half_even (x * 562949953421312)) / 562949953421312"
  using fl_eval[of "3" x] by (simp add: pow2_def)

lemma fl_binade_4:
  "16 \<le> \<bar>x\<bar> \<Longrightarrow> \<bar>x\<bar> < 32 \<Longrightarrow> fl x = of_int (round_half_even (x * 281474976710656)) / 281474976710656"
  using fl_eval[of "4" x] by (simp add: pow2_def)

lemma fl_binade_5:
  "32 \<le> \<bar>x\<bar> \<Longrightarrow> \<bar>x\<bar> < 64 \<Longrightarrow> fl x = of_int (round_half_even (x * 140737488355328)) / 140737488355328"
  using fl_eval[of "5" x] by (simp add: pow2_def)

lemma fl_binade_6:
  "64 \<le> \<bar>x\<bar> \<Longrightarrow> \<bar>x\<bar> < 128 \<Longrightarrow> fl x = of_int (round_half_even (x * 70368744177664)) / 70368744177664"
  using fl_eval[of "6" x] by (simp add: pow2_def)

lemma fl_binade_7:
  "128 \<le> \<bar>x\<bar> \<Longrightarrow> \<bar>x\<bar> < 256 \<Longrightarrow> fl x = of_int (round_half_even (x * 35184372088832)) / 35184372088832"
  using fl_eval[of "7" x] by (simp add: pow2_def)

lemma fl_binade_8:
  "256 \<le> \<bar>x\<bar> \<Longrightarrow> \<bar>x\<bar> < 512 \<Longrightarrow> fl x = of_int (round_half_even (x * 17592186044416)) / 17592186044416"
  using fl_eval[of "8" x] by (simp add: pow2_def)

lemma fl_binade_9:
  "512 \<le> \<bar>x\<bar> \<Longrightarrow> \<bar>x\<bar> < 1024 \<Longrightarrow> fl x = of_int (round_half_even (x * 8796093022208)) / 8796093022208"
  using fl_eval[of "9" x] by (simp add: pow2_def)

lemma fl_binade_10:
  "1024 \<le> \<bar>x\<bar> \<Longrightarrow> \<bar>x\<bar> < 2048 \<Longrightarrow> fl x = of_int (round_half_even (x * 4398046511104)) / 4398046511104"
  using fl_eval[of "10" x] by (simp add: pow2_def)

lemmas fl_small = fl_binade_m8 fl_binade_m7 fl_binade_m6 fl_binade_m5 fl_binade_m4 fl_binade_m3 fl_binade_m2 fl_binade_m1 fl_binade_0 fl_binade_1 fl_binade_2 fl_binade_3 fl_binade_4 fl_binade_5 fl_binade_6 fl_binade_7 fl_binade_8 fl_binade_9 fl_binade_10

lemma fl_numeral: "numeral n < (2::int) ^ 53 \<Longrightarrow> fl (numeral n) = numeral n"
  using fl_of_int[of "numeral n"] by simp

lemma fl_one: "fl 1 = 1"
  using fl_of_int[of 1] by simp

lemma floor_numeral_div: "\<lfloor>numeral a / numeral b :: rat\<rfloor> = numeral a div numeral b"
  using floor_divide_of_int_eq[of "numeral a" "numeral b", where 'a=rat] by simp

lemma floor_neg_numeral_div: "\<lfloor>- (numeral a / numeral b) :: rat\<rfloor> = - numeral a div numeral b"
  using floor_divide_of_int_eq[of "- numeral a" "numeral b", where 'a=rat] by simp

lemma js_add_Fin: "js_add (Fin a) (Fin b) = js_round (a < 0 \<and> b < 0) (a + b)"
  by (simp add: js_add_def)

lemma js_sub_Fin: "js_sub (Fin a) (Fin b) = js_round (a < 0 \<and> 0 \<le> b) (a - b)"
  by (cases "b = 0") (auto simp: js_sub_def js_add_def intro!: arg_cong2[where f=js_round])

lemma js_mul_Fin: "js_mul (Fin a) (Fin b) = js_round ((a < 0) \<noteq> (b < 0)) (a * b)"
  by (simp add: js_mul_def)

lemma js_div_Fin:
  "js_div (Fin a) (Fin b) =
     (if b = 0 then (if a = 0 then NaN else inf_of ((a < 0) \<noteq> (b < 0)))
      else js_round ((a < 0) \<noteq> (b < 0)) (a / b))"
  by (simp add: js_div_def)

lemma js_le_Fin: "js_le (Fin a) (Fin b) \<longleftrightarrow> a \<le> b"
  by (auto simp: js_le_def)

lemma js_gt_Fin: "js_gt (Fin a) (Fin b) \<longleftrightarrow> b < a"
  by (simp add: js_gt_def)

lemmas js_eval = js_add_Fin js_sub_Fin js_mul_Fin js_div_Fin js_le_Fin js_gt_Fin js_round_small
  lit_def Let_def inf_of_def zero_of_def nearest_int_up_def toFixed1_digits_def
  round_half_even_def js_or_def strict_eq_null_def strict_eq_undefined_def fl_numeral fl_one fl_zero
  floor_numeral_div floor_neg_numeral_div fl_small

lemma fl_of_int_le: "\<bar>n\<bar> \<le> 2 ^ 53 \<Longrightarrow> fl (of_int n) = of_int n"
proof (cases "\<bar>n\<bar> < 2 ^ 53")
  case True then show ?thesis by (rule fl_of_int)
next
  case False
  assume "\<bar>n\<bar> \<le> 2 ^ 53"
  with False have "n = 2 ^ 53 \<or> n = - (2 ^ 53)" by linarith
  then show ?thesis
    using fl_repr[of "2 ^ 52" 1] fl_repr[of "- (2 ^ 52)" 1] by (auto simp: pow2_def)
qed


section \<open>Signs of the results\<close>

lemma js_nonneg_iff:
  "js_le (Fin 0) a \<longleftrightarrow> a = PInf \<or> a = NZero \<or> (\<exists>x. a = Fin x \<and> 0 \<le> x)"
  by (cases a) (auto simp: js_le_def)

lemma js_pos_iff:
  "js_lt (Fin 0) a \<longleftrightarrow> a = PInf \<or> (\<exists>x. a = Fin x \<and> 0 < x)"
  by (cases a) auto

lemma js_round_zero: "js_round neg 0 = zero_of neg"
  using pow2_pos[of 1024] by (simp add: js_round_def fl_zero not_le)

lemma js_round_nonneg: "0 \<le> x \<Longrightarrow> js_le (Fin 0) (js_round neg x)"
  using fl_nonneg[of x] pow2_pos[of 1024]
  by (cases "x = 0") (auto simp: fl_zero js_round_def Let_def inf_of_def zero_of_def js_le_def)

lemma js_round_nonpos: "x \<le> 0 \<Longrightarrow> \<not> js_lt (Fin 0) (js_round neg x)"
  using fl_nonpos[of x] pow2_pos[of 1024]
  by (cases "x = 0") (auto simp: fl_zero js_round_def Let_def inf_of_def zero_of_def)

lemma nearest_int_up_nonneg: "0 \<le> x \<Longrightarrow> 0 \<le> nearest_int_up x"
  by (auto simp: nearest_int_up_def Let_def)

lemma Math_round_nonneg: "js_le (Fin 0) a \<Longrightarrow> js_le (Fin 0) (Math_round a)"
proof -
  assume "js_le (Fin 0) a"
  then consider "a = PInf" | "a = NZero" | x where "a = Fin x" "0 \<le> x"
    by (auto simp: js_nonneg_iff)
  then show ?thesis
  proof cases
    case 3
    then show ?thesis using nearest_int_up_nonneg[of x]
      by (simp add: Let_def zero_of_def js_le_def)
  qed (simp_all add: js_le_def)
qed

lemma toFixed1_digits_nonneg: "0 \<le> a \<Longrightarrow> 0 \<le> toFixed1_digits a"
  by (auto simp: toFixed1_digits_def Let_def)

lemma toFixed1_nonneg: "js_le (Fin 0) a \<Longrightarrow> js_le (Fin 0) (parseFloat_toFixed1 a)"
proof -
  assume "js_le (Fin 0) a"
  then consider "a = PInf" | "a = NZero" | x where "a = Fin x" "0 \<le> x"
    by (auto simp: js_nonneg_iff)
  then show ?thesis
  proof cases
    case 3
    have "0 \<le> toFixed1_digits \<bar>x\<bar>" by (rule toFixed1_digits_nonneg) simp
    then have "js_le (Fin 0) (js_round False (of_int (toFixed1_digits \<bar>x\<bar>) / 10))"
      by (intro js_round_nonneg) simp
    then show ?thesis using 3 by (simp add: Let_def js_le_def)
  qed (simp_all add: js_le_def)
qed

lemma js_sub_finite:
  assumes "finite_num a" "finite_num b"
  shows "\<exists>neg. js_sub a b = js_round neg (val a - val b)"
  using assms by (cases a; cases b) (auto simp: js_sub_def js_add_def)

lemma js_le_finite: "finite_num a \<Longrightarrow> finite_num b \<Longrightarrow> js_le a b \<longleftrightarrow> val a \<le> val b"
  by (cases a; cases b) (auto simp: js_le_def)

lemma js_lt_finite: "finite_num a \<Longrightarrow> finite_num b \<Longrightarrow> js_lt a b \<longleftrightarrow> val a < val b"
  by (cases a; cases b) auto

lemma js_sub_nonneg:
  assumes "finite_num a" "finite_num b" "js_le b a"
  shows "js_le (Fin 0) (js_sub a b)"
proof -
  obtain neg where "js_sub a b = js_round neg (val a - val b)"
    using js_sub_finite[OF assms(1,2)] by blast
  moreover have "0 \<le> val a - val b" using assms by (simp add: js_le_finite)
  ultimately show ?thesis by (simp add: js_round_nonneg)
qed

lemma js_sub_not_pos:
  assumes "finite_num a" "finite_num b" "js_le a b"
  shows "\<not> js_gt (js_sub a b) (Fin 0)"
proof -
  obtain neg where "js_sub a b = js_round neg (val a - val b)"
    using js_sub_finite[OF assms(1,2)] by blast
  moreover have "val a - val b \<le> 0" using assms by (simp add: js_le_finite)
  ultimately show ?thesis by (simp add: js_round_nonpos js_gt_def)
qed

lemma js_mul_nonneg:
  assumes "js_le (Fin 0) a" "js_lt (Fin 0) b" "finite_num b"
  shows "js_le (Fin 0) (js_mul a b)"
proof -
  obtain y where b: "b = Fin y" "0 < y" using assms(2,3) by (auto simp: js_pos_iff)
  from assms(1) consider "a = PInf" | "a = NZero" | x where "a = Fin x" "0 \<le> x"
    by (auto simp: js_nonneg_iff)
  then show ?thesis
  proof cases
    case 1 then show ?thesis using b by (simp add: js_mul_def inf_of_def js_le_def)
  next
    case 2 then show ?thesis using b
      by (simp add: js_mul_def js_round_zero zero_of_def js_le_def)
  next
    case 3
    then have "0 \<le> x * y" using b by simp
    then show ?thesis using 3 b by (simp add: js_mul_def js_round_nonneg)
  qed
qed

lemma js_div_nonneg:
  assumes "js_le (Fin 0) a" "js_lt (Fin 0) b" "finite_num b"
  shows "js_le (Fin 0) (js_div a b)"
proof -
  obtain y where b: "b = Fin y" "0 < y" using assms(2,3) by (auto simp: js_pos_iff)
  from assms(1) consider "a = PInf" | "a = NZero" | x where "a = Fin x" "0 \<le> x"
    by (auto simp: js_nonneg_iff)
  then show ?thesis
  proof cases
    case 1 then show ?thesis using b by (simp add: js_div_def inf_of_def js_le_def)
  next
    case 2 then show ?thesis using b
      by (simp add: js_div_def js_round_zero zero_of_def js_le_def)
  next
    case 3
    then have "0 \<le> x / y" using b by simp
    then show ?thesis using 3 b by (simp add: js_div_def js_round_nonneg)
  qed
qed

lemma js_add_nonneg:
  assumes "js_le (Fin 0) a" "js_le (Fin 0) b"
  shows "js_le (Fin 0) (js_add a b)"
proof -
  have "0 \<le> val a + val b" using assms by (auto simp: js_nonneg_iff)
  then have "js_le (Fin 0) (js_round (sign_bit a \<and> sign_bit b) (val a + val b))"
    by (rule js_round_nonneg)
  then show ?thesis using assms by (cases a; cases b) (auto simp: js_add_def js_le_def)
qed

lemma is_double_grid:
  assumes "is_double x"
  shows "\<exists>k. x = of_int k * pow2 (- 1074)"
proof -
  obtain n where n: "fl x = of_int n * pow2 (quantum_exp x)" using fl_multiple by blast
  have q: "0 \<le> quantum_exp x + 1074" using quantum_exp_ge[of x] by simp
  have "pow2 (quantum_exp x) = pow2 (quantum_exp x + 1074) * pow2 (- 1074)"
    by (simp flip: pow2_add)
  also have "\<dots> = of_int (2 ^ nat (quantum_exp x + 1074)) * pow2 (- 1074)"
    using q by (simp only: pow2_nonneg_int)
  finally have "x = of_int (n * 2 ^ nat (quantum_exp x + 1074)) * pow2 (- 1074)"
    using n assms by (simp add: is_double_def)
  then show ?thesis by blast
qed

lemma fl_pos_grid:
  assumes "x = of_int k * pow2 (- 1074)" "0 < x"
  shows "0 < fl x"
proof -
  have "0 < k" using assms pow2_pos[of "- 1074"] by (simp add: zero_less_mult_iff)
  then have "(1::rat) \<le> of_int k" by simp
  then have "1 * pow2 (- 1074) \<le> x"
    unfolding assms(1) using pow2_pos[of "- 1074"] by (simp only: mult_le_cancel_right_pos)
  then have "fl (of_int 1 * pow2 (- 1074)) \<le> fl x" by (intro fl_mono) simp
  then have "pow2 (- 1074) \<le> fl x" using fl_repr[of 1 "- 1074"] by simp
  then show ?thesis using pow2_pos[of "- 1074"] by linarith
qed

lemma js_round_pos: "0 < x \<Longrightarrow> 0 < fl x \<Longrightarrow> js_lt (Fin 0) (js_round neg x)"
  by (auto simp: js_round_def Let_def inf_of_def zero_of_def)

lemma finite_double_cases:
  "finite_double a \<Longrightarrow> finite_num a \<and> is_double (val a)"
  by (cases a) (auto simp: is_double_0)

lemma js_sub_pos:
  assumes "finite_double a" "finite_double b" "js_lt b a"
  shows "js_gt (js_sub a b) (Fin 0)"
proof -
  have fa: "finite_num a" "is_double (val a)" and fb: "finite_num b" "is_double (val b)"
    using assms finite_double_cases by blast+
  obtain neg where s: "js_sub a b = js_round neg (val a - val b)"
    using js_sub_finite[OF fa(1) fb(1)] by blast
  have pos: "0 < val a - val b" using assms(3) fa fb by (simp add: js_lt_finite)
  obtain ka kb where "val a = of_int ka * pow2 (- 1074)" "val b = of_int kb * pow2 (- 1074)"
    using is_double_grid fa(2) fb(2) by blast
  then have "val a - val b = of_int (ka - kb) * pow2 (- 1074)" by (simp add: left_diff_distrib)
  then have "0 < fl (val a - val b)" using pos by (rule fl_pos_grid)
  then show ?thesis using pos by (simp add: s js_gt_def js_round_pos)
qed

section \<open>The code's roundings and the specification's\<close>

lemma toFixed1_digits_eq: "toFixed1_digits a = \<lfloor>a * 10 + 1 / 2\<rfloor>"
proof -
  define lo where "lo = \<lfloor>a * 10\<rfloor>"
  define d where "d = a * 10 - of_int lo"
  have d: "0 \<le> d" "d < 1" unfolding d_def lo_def by linarith+
  have a: "a = (of_int lo + d) / 10" by (simp add: d_def)
  have c: "\<bar>of_int (lo + 1) / 10 - a\<bar> \<le> \<bar>of_int lo / 10 - a\<bar> \<longleftrightarrow> 1 / 2 \<le> d"
    using d by (simp add: a abs_if field_simps)
  have f: "\<lfloor>a * 10 + 1 / 2\<rfloor> = (if 1 / 2 \<le> d then lo + 1 else lo)"
  proof -
    have "a * 10 + 1 / 2 = of_int lo + (d + 1 / 2)" by (simp add: a)
    then show ?thesis using d by (auto simp: floor_unique)
  qed
  show ?thesis
    unfolding toFixed1_digits_def Let_def lo_def[symmetric] f using c by simp
qed

lemma nearest_int_up_eq: "nearest_int_up x = round x"
proof -
  define f where "f = \<lfloor>x\<rfloor>"
  define d where "d = x - of_int f"
  have d: "0 \<le> d" "d < 1" unfolding d_def f_def by linarith+
  have "x + 1 / 2 = of_int f + (d + 1 / 2)" by (simp add: d_def)
  then have "\<lfloor>x + 1 / 2\<rfloor> = (if d < 1 / 2 then f else f + 1)"
    using d by (auto simp: floor_unique)
  moreover have "nearest_int_up x = (if d < 1 / 2 then f else f + 1)"
    by (simp add: nearest_int_up_def Let_def f_def d_def)
  ultimately show ?thesis by (simp add: round_def)
qed

lemma js_round_double: "is_double x \<Longrightarrow> x \<noteq> 0 \<Longrightarrow> js_round neg x = Fin x"
  by (simp add: is_double_def js_round_def not_le)

lemma is_double_of_int: "\<bar>n\<bar> \<le> 2 ^ 53 \<Longrightarrow> is_double (of_int n)"
proof -
  assume n: "\<bar>n\<bar> \<le> 2 ^ 53"
  have "\<bar>of_int n :: rat\<bar> \<le> of_int (2 ^ 53)" using n by (simp only: of_int_abs[symmetric] of_int_le_iff)
  moreover have "pow2 53 < pow2 1024" by (rule pow2_strict_mono) simp
  ultimately have "\<bar>of_int n :: rat\<bar> < pow2 1024" by (simp add: pow2_nonneg_int)
  then show ?thesis using fl_of_int_le[OF n] by (simp add: is_double_def)
qed

lemma toFixed1_refines:
  assumes "wf_num a"
  shows "parseFloat_toFixed1 a = spec_round_1dp a"
proof (cases a)
  case (Fin x)
  then have dx: "is_double x" using assms by simp
  show ?thesis
  proof (cases "10 ^ 21 \<le> \<bar>x\<bar>")
    case True
    then have big: "2 ^ 52 \<le> \<bar>x\<bar>" by simp
    then obtain n where n: "x = of_int n" using double_large_int[of x] dx by (auto simp: is_double_def)
    have x0: "x \<noteq> 0" using big by auto
    have "\<lfloor>of_int (\<bar>n\<bar> * 10) + 1 / 2 :: rat\<rfloor> = \<bar>n\<bar> * 10"
      by (rule floor_unique) simp_all
    then have "\<lfloor>\<bar>x\<bar> * 10 + 1 / 2\<rfloor> = \<bar>n\<bar> * 10"
      unfolding n by simp
    then have "half_away_1dp x = sgn x * \<bar>x\<bar>" by (simp add: half_away_1dp_def n)
    then have "half_away_1dp x = x" by (simp add: sgn_mult_abs)
    then show ?thesis using True Fin dx x0 by (simp add: spec_round_1dp_def js_round_double)
  next
    case False
    have "x < 0 \<Longrightarrow> sgn x = - 1" "0 < x \<Longrightarrow> sgn x = 1" by simp_all
    moreover have "\<lfloor>1 / 2 :: rat\<rfloor> = 0" by (rule floor_unique) simp_all
    ultimately show ?thesis using False Fin
      by (cases "x = 0") (auto simp: spec_round_1dp_def Let_def toFixed1_digits_eq half_away_1dp_def)
  qed
qed (simp_all add: spec_round_1dp_def half_away_1dp_def js_round_zero zero_of_def)

lemma round_bounds:
  assumes "\<bar>x :: rat\<bar> \<le> of_int m"
  shows "\<bar>round x\<bar> \<le> m"
proof -
  have a: "x \<le> of_int m" and b: "of_int (- m) \<le> x"
    using assms by (simp_all add: abs_le_iff)
  have r1: "round (of_int m :: rat) = m" and r2: "round (of_int (- m) :: rat) = - m"
    by (rule round_of_int)+
  have "round x \<le> m" using round_mono[OF a] unfolding r1 .
  moreover have "- m \<le> round x" using round_mono[OF b] unfolding r2 .
  ultimately show ?thesis by linarith
qed

lemma Math_round_refines:
  assumes "wf_num a"
  shows "Math_round a = spec_round_int a"
proof (cases a)
  case (Fin x)
  then have dx: "is_double x" using assms by simp
  have "is_double (of_int (round x))"
  proof (cases "\<bar>x\<bar> \<le> 2 ^ 52")
    case True
    then have "\<bar>x\<bar> \<le> of_int (2 ^ 52)" by simp
    then have "\<bar>round x\<bar> \<le> 2 ^ 52" by (rule round_bounds)
    then show ?thesis by (intro is_double_of_int) simp
  next
    case False
    then obtain n where n: "x = of_int n" using double_large_int[of x] dx by (auto simp: is_double_def)
    then show ?thesis using dx by simp
  qed
  then show ?thesis using Fin
    by (simp add: spec_round_int_def nearest_int_up_eq Let_def js_round_zero js_round_double)
qed (simp_all add: spec_round_int_def js_round_zero zero_of_def)

lemma wf_js_add: "wf_num (js_add a b)"
  by (cases a; cases b) (simp_all add: js_add_def wf_js_round)

lemma wf_js_sub: "wf_num (js_sub a b)"
  by (simp add: js_sub_def wf_js_add)

lemma wf_js_mul: "wf_num (js_mul a b)"
  by (simp add: js_mul_def wf_js_round inf_of_def)

lemma wf_js_div: "wf_num (js_div a b)"
  by (simp add: js_div_def wf_js_round inf_of_def zero_of_def is_double_0)

section \<open>Rounding errors of the accuracy\<close>

lemma fl_error_le:
  assumes "x \<noteq> 0" "\<bar>x\<bar> < pow2 (e + 1)" "- 1022 \<le> e"
  shows "\<bar>fl x - x\<bar> \<le> pow2 (e - 53)"
proof -
  have "ilog2 x < e + 1" using assms(1,2) by (rule ilog2_less)
  then have "quantum_exp x \<le> e - 52" using assms(3) by (simp add: quantum_exp_def)
  then have "pow2 (quantum_exp x) \<le> pow2 (e - 52)" by (rule pow2_mono)
  then have "pow2 (quantum_exp x) / 2 \<le> pow2 (e - 52) / 2" by simp
  also have "\<dots> = pow2 (e - 53)" using pow2_pred[of "e - 52"] by simp
  finally show ?thesis using fl_error[OF assms(1)] by linarith
qed

lemma js_round_nonneg_val:
  assumes "0 \<le> x" "fl x < pow2 1024"
  shows "js_round False x = Fin (fl x)"
  using assms fl_nonneg[of x]
  by (auto simp: js_round_def Let_def zero_of_def not_le)

lemma floor_near:
  fixes y w :: rat
  assumes "\<bar>y - w\<bar> \<le> d" "of_int s + d \<le> w" "w + d < of_int s + 1"
  shows "\<lfloor>y\<rfloor> = s"
  using assms by (intro floor_unique) linarith+

lemma floor_near_int:
  fixes y :: rat
  assumes "\<bar>y - of_int s\<bar> \<le> d" "d < 1"
  shows "\<lfloor>y\<rfloor> = s \<or> \<lfloor>y\<rfloor> = s - 1"
proof (cases "of_int s \<le> y")
  case True
  then have "\<lfloor>y\<rfloor> = s" using assms by (intro floor_unique) linarith+
  then show ?thesis by simp
next
  case False
  then have "of_int s - 1 \<le> y" "y < of_int s" using assms by linarith+
  then have "\<lfloor>y\<rfloor> = s - 1" by (intro floor_unique) simp_all
  then show ?thesis by simp
qed

lemma pow2_1024_gt_100: "100 < pow2 1024"
  using pow2_strict_mono[of 7 1024] by (simp add: pow2_def)

lemma fl_unit_interval:
  assumes "0 < q" "q \<le> 1"
  shows "0 \<le> fl q" "fl q \<le> 1" "\<bar>fl q - q\<bar> \<le> 1 / 2 ^ 53"
proof -
  show "0 \<le> fl q" using assms(1) by (intro fl_nonneg) simp
  show "fl q \<le> 1" using fl_mono[OF assms(2)] by (simp add: fl_one)
  have "\<bar>q\<bar> < pow2 (0 + 1)" using assms by (simp add: pow2_def)
  moreover have "q \<noteq> 0" using assms(1) by simp
  ultimately have "\<bar>fl q - q\<bar> \<le> pow2 (0 - 53)" by (intro fl_error_le) simp_all
  then show "\<bar>fl q - q\<bar> \<le> 1 / 2 ^ 53" by (simp add: pow2_def)
qed


lemma fl_percent:
  assumes "0 \<le> x" "x \<le> 100"
  shows "0 \<le> fl x" "fl x \<le> 100" "\<bar>fl x - x\<bar> \<le> 1 / 2 ^ 47"
proof -
  show "0 \<le> fl x" using assms(1) by (rule fl_nonneg)
  have "fl 100 = 100" using fl_of_int[of 100] by simp
  then show "fl x \<le> 100" using fl_mono[OF assms(2)] by simp
  show "\<bar>fl x - x\<bar> \<le> 1 / 2 ^ 47"
  proof (cases "x = 0")
    case True then show ?thesis by (simp add: fl_zero)
  next
    case False
    have "\<bar>x\<bar> < pow2 (6 + 1)" using assms by (simp add: pow2_def)
    then have "\<bar>fl x - x\<bar> \<le> pow2 (6 - 53)" using False by (intro fl_error_le) simp_all
    then show ?thesis by (simp add: pow2_def)
  qed
qed

lemma js_div_unit:
  assumes "0 < a" "a \<le> b"
  shows "js_div (Fin a) (Fin b) = Fin (fl (a / b))"
proof -
  have q: "0 < a / b" "a / b \<le> 1" using assms by simp_all
  have "fl (a / b) < pow2 1024"
    using fl_unit_interval(2)[OF q] pow2_1024_gt_100 by linarith
  then have "js_round False (a / b) = Fin (fl (a / b))"
    using q(1) by (intro js_round_nonneg_val) simp_all
  then show ?thesis using assms by (simp add: js_div_Fin)
qed

lemma js_mul_percent:
  assumes "0 \<le> x" "x \<le> 1"
  shows "js_mul (Fin x) (Fin 100) = Fin (fl (x * 100))"
proof -
  have r: "0 \<le> x * 100" "x * 100 \<le> 100" using assms by simp_all
  have "fl (x * 100) < pow2 1024"
    using fl_percent(2)[OF r] pow2_1024_gt_100 by linarith
  then have "js_round False (x * 100) = Fin (fl (x * 100))"
    using r(1) by (intro js_round_nonneg_val) simp_all
  then show ?thesis using assms by (simp add: js_mul_Fin not_less)
qed

lemma Math_round_nonneg_val: "0 \<le> y \<Longrightarrow> Math_round (Fin y) = Fin (of_int (round y))"
  by (auto simp: nearest_int_up_eq Let_def zero_of_def)


lemma accuracy_value:
  fixes c t :: nat
  assumes "0 < c" "c \<le> t"
  shows "\<exists>y :: rat. accuracy (updateStats \<lparr>totalAttempts = Fin (of_nat t), correctAnswers = Fin (of_nat c)\<rparr>)
              = Fin (of_int (round y))
           \<and> \<bar>y - 100 * of_nat c / of_nat t\<bar> \<le> 1 / 2 ^ 45"
proof -
  define a b :: rat where "a = of_nat c" and "b = of_nat t"
  have ab: "0 < a" "a \<le> b" using assms by (simp_all add: a_def b_def)
  have q: "0 < a / b" "a / b \<le> 1" using ab by simp_all
  define x1 where "x1 = fl (a / b)"
  note u = fl_unit_interval[OF q, folded x1_def]
  define y where "y = fl (x1 * 100)"
  have r: "0 \<le> x1 * 100" "x1 * 100 \<le> 100" using u by simp_all
  note p = fl_percent[OF r, folded y_def]
  have "y - 100 * a / b = (y - x1 * 100) + 100 * (x1 - a / b)" by simp
  then have "\<bar>y - 100 * a / b\<bar> \<le> \<bar>y - x1 * 100\<bar> + 100 * \<bar>x1 - a / b\<bar>"
    by (simp only: abs_triangle_ineq[THEN order_trans] abs_mult abs_numeral order_refl)
  also have "\<dots> \<le> 1 / 2 ^ 47 + 100 * (1 / 2 ^ 53)"
    using p(3) u(3) by (intro add_mono mult_left_mono) simp_all
  also have "\<dots> \<le> 1 / 2 ^ 45" by simp
  finally have err: "\<bar>y - 100 * a / b\<bar> \<le> 1 / 2 ^ 45" .
  have "js_div (Fin a) (Fin b) = Fin x1" unfolding x1_def using ab by (rule js_div_unit)
  moreover have "js_mul (Fin x1) (Fin 100) = Fin y" unfolding y_def using u(1,2) by (rule js_mul_percent)
  moreover have "Math_round (Fin y) = Fin (of_int (round y))" using p(1) by (rule Math_round_nonneg_val)
  moreover have "js_gt (Fin b) (Fin 0)" using ab by (simp add: js_gt_def)
  ultimately have "accuracy (updateStats \<lparr>totalAttempts = Fin b, correctAnswers = Fin a\<rparr>)
      = Fin (of_int (round y))"
    by (simp add: updateStats_def)
  then show ?thesis using err unfolding a_def b_def by blast
qed

lemma div_pos_num: "0 < a / b \<Longrightarrow> 0 < b \<Longrightarrow> 0 < (a :: rat)"
  by (auto simp: zero_less_divide_iff)

lemma div_less_one_num: "a / b < 1 \<Longrightarrow> 0 < b \<Longrightarrow> (a :: rat) < b"
  by (simp add: pos_divide_less_eq)

lemma frac_grid:
  fixes M :: int and n :: nat
  assumes "0 < n" "frac (of_int M / of_nat n :: rat) \<noteq> 0"
  shows "1 / of_nat n \<le> frac (of_int M / of_nat n :: rat)"
    and "frac (of_int M / of_nat n :: rat) \<le> 1 - 1 / of_nat n"
proof -
  define w where "w = (of_int M / of_nat n :: rat)"
  define K where "K = M - int n * \<lfloor>w\<rfloor>"
  have np: "(0::rat) < of_nat n" using assms(1) by simp
  have fw: "frac w = of_int K / of_nat n"
    using np by (simp add: frac_def K_def w_def field_simps)
  have "0 < frac w" using assms(2) by (simp add: w_def)
  moreover have "frac w < 1" by (rule frac_lt_1)
  ultimately have "0 < frac w" "frac w < 1" by blast+
  then have "0 < of_int K / (of_nat n :: rat)" "of_int K / (of_nat n :: rat) < 1"
    unfolding fw by -
  then have k: "(0::rat) < of_int K" "(of_int K :: rat) < of_nat n"
    using np div_pos_num div_less_one_num by blast+
  have "(of_int K :: rat) < of_int (int n)" using k(2) by simp
  then have "K < int n" by (simp only: of_int_less_iff)
  moreover have "0 < K" using k(1) by simp
  ultimately have "1 \<le> K" "K \<le> int n - 1" by simp_all
  then have "(of_int 1 :: rat) \<le> of_int K" "(of_int K :: rat) \<le> of_int (int n - 1)"
    by (simp_all only: of_int_le_iff)
  then have "(1::rat) \<le> of_int K" "(of_int K :: rat) \<le> of_nat n - 1" by simp_all
  then have "1 / of_nat n \<le> frac w" "frac w \<le> 1 - 1 / of_nat n"
    using np by (simp_all add: fw field_simps)
  then show "1 / of_nat n \<le> frac (of_int M / of_nat n :: rat)"
    and "frac (of_int M / of_nat n :: rat) \<le> 1 - 1 / of_nat n"
    by (simp_all add: w_def)
qed


lemma accuracy_zero_correct:
  fixes t :: nat
  assumes "0 < t"
  shows "accuracy (updateStats \<lparr>totalAttempts = Fin (of_nat t), correctAnswers = Fin (of_nat 0)\<rparr>) = Fin 0"
  using assms
  by (simp add: updateStats_def js_gt_def js_div_Fin js_mul_Fin js_round_zero zero_of_def
      nearest_int_up_def)

section \<open>Drawing a scenario\<close>

lemma random_bound:
  assumes "is_random r"
  shows "\<exists>q. r = Fin q \<and> 0 \<le> q \<and> q \<le> 1 - 1 / 2 ^ 53"
proof -
  obtain q where q: "r = Fin q" "is_double q" "0 \<le> q" "q < 1"
    using assms by (cases r) auto
  have "q \<le> 1 - 1 / 2 ^ 53"
  proof (cases "q < 1 / 2")
    case True
    then show ?thesis by simp
  next
    case False
    then have b: "1 / 2 \<le> \<bar>q\<bar>" "\<bar>q\<bar> < 1" using q(4) by simp_all
    define n where "n = round_half_even (q * 9007199254740992)"
    have "q = of_int n / 9007199254740992"
      using fl_binade_m1[OF b] q(2) by (simp add: is_double_def n_def)
    then have qn: "q * 9007199254740992 = of_int n" by simp
    then have "(of_int n :: rat) < of_int 9007199254740992" using q(4) by simp
    then have "n < 9007199254740992" by (simp only: of_int_less_iff)
    then have "n \<le> 9007199254740991" by simp
    then have "(of_int n :: rat) \<le> of_int 9007199254740991" by (simp only: of_int_le_iff)
    then have "q * 9007199254740992 \<le> 9007199254740991" using qn by simp
    then show ?thesis by simp
  qed
  then show ?thesis using q by blast
qed

lemma random_index:
  fixes N :: int
  assumes "0 \<le> q" "q \<le> 1 - 1 / 2 ^ 53" "0 < N" "N \<le> 1000"
    and below: "fl (of_int N - of_int N / 2 ^ 53) < of_int N"
  shows "\<exists>k. Math_floor (js_mul (Fin q) (Fin (of_int N))) = Fin (of_int k) \<and> 0 \<le> k \<and> k < N"
proof -
  define x where "x = q * of_int N"
  have Np: "(0::rat) < of_int N" using assms(3) by simp
  have x0: "0 \<le> x" using assms(1) Np by (simp add: x_def)
  have "q * of_int N \<le> (1 - 1 / 2 ^ 53) * of_int N"
    using assms(2) Np by (simp only: mult_le_cancel_right_pos)
  then have "x \<le> of_int N - of_int N / 2 ^ 53" by (simp add: x_def left_diff_distrib)
  then have "fl x \<le> fl (of_int N - of_int N / 2 ^ 53)" by (rule fl_mono)
  then have lt: "fl x < of_int N" using below by linarith
  have ge: "0 \<le> fl x" using x0 by (rule fl_nonneg)
  have "(of_int N :: rat) \<le> of_int 1000" using assms(4) by (simp only: of_int_le_iff)
  then have "fl x < pow2 1024" using lt pow2_1024_gt_100 pow2_strict_mono[of 10 1024]
    by (simp add: pow2_def)
  then have "js_round False x = Fin (fl x)" using x0 by (intro js_round_nonneg_val)
  then have "js_mul (Fin q) (Fin (of_int N)) = Fin (fl x)"
    using assms(1) Np by (simp add: js_mul_Fin x_def not_less)
  then have "Math_floor (js_mul (Fin q) (Fin (of_int N))) = Fin (of_int \<lfloor>fl x\<rfloor>)" by simp
  moreover have "0 \<le> \<lfloor>fl x\<rfloor>" using ge by simp
  moreover have "\<lfloor>fl x\<rfloor> < N" using lt by (simp add: floor_less_iff)
  ultimately show ?thesis by blast
qed

lemma fl_below:
  "fl (of_int 3 - of_int 3 / 2 ^ 53) < of_int 3"
  "fl (of_int 4 - of_int 4 / 2 ^ 53) < of_int 4"
  "fl (of_int 12 - of_int 12 / 2 ^ 53) < of_int 12"
  "fl (of_int 201 - of_int 201 / 2 ^ 53) < of_int 201"
  by (simp_all add: js_eval)


lemma js_add_int:
  assumes "0 \<le> a" "0 \<le> b" "a + b < 2 ^ 52"
  shows "js_add (Fin (of_int a)) (Fin (of_int b)) = Fin (of_int (a + b))"
proof -
  have "\<bar>a + b\<bar> < 2 ^ 53" using assms by simp
  then have f: "fl (of_int (a + b)) = of_int (a + b)" by (rule fl_of_int)
  have "(of_int (a + b) :: rat) < of_int (2 ^ 52)" using assms(3) by (simp only: of_int_less_iff)
  then have "fl (of_int (a + b)) < pow2 1024" using pow2_1024_gt unfolding f by simp
  moreover have "(0::rat) \<le> of_int (a + b)" using assms by simp
  ultimately have "js_round False (of_int (a + b)) = Fin (fl (of_int (a + b)))"
    by (intro js_round_nonneg_val)
  then show ?thesis using assms f by (simp add: js_add_Fin not_less)
qed

lemma js_mul_int:
  assumes "0 \<le> a" "0 \<le> b" "a * b < 2 ^ 52"
  shows "js_mul (Fin (of_int a)) (Fin (of_int b)) = Fin (of_int (a * b))"
proof -
  have ab: "0 \<le> a * b" using assms by simp
  then have "\<bar>a * b\<bar> < 2 ^ 53" using assms by simp
  then have f: "fl (of_int (a * b)) = of_int (a * b)" by (rule fl_of_int)
  have "(of_int (a * b) :: rat) < of_int (2 ^ 52)" using assms(3) by (simp only: of_int_less_iff)
  then have "fl (of_int (a * b)) < pow2 1024" using pow2_1024_gt unfolding f by simp
  moreover have "(0::rat) \<le> of_int (a * b)" using ab by (simp only: of_int_0_le_iff)
  ultimately have "js_round False (of_int (a * b)) = Fin (fl (of_int (a * b)))"
    by (intro js_round_nonneg_val)
  then show ?thesis using assms f by (simp add: js_mul_Fin not_less)
qed

lemma round_fifth:
  fixes N :: int
  assumes "80 \<le> N" "N \<le> 280"
  shows "Math_round (js_div (Fin (of_int N)) (Fin 5)) = Fin (of_int (round (of_int N / 5 :: rat)))"
    and "16 \<le> round (of_int N / 5 :: rat)" and "round (of_int N / 5 :: rat) \<le> 56"
proof -
  define x where "x = (of_int N / 5 :: rat)"
  have N: "(of_int 80 :: rat) \<le> of_int N" "(of_int N :: rat) \<le> of_int 280"
    using assms by (simp_all only: of_int_le_iff)
  then have xb: "16 \<le> x" "x \<le> 56" by (simp_all add: x_def)
  then have x0: "x \<noteq> 0" "0 < x" by simp_all
  have "\<bar>x\<bar> < pow2 (5 + 1)" using xb by (simp add: pow2_def)
  then have "\<bar>fl x - x\<bar> \<le> pow2 (5 - 53)" using x0(1) by (intro fl_error_le) simp_all
  then have err: "\<bar>(fl x + 1 / 2) - (x + 1 / 2)\<bar> \<le> 1 / 2 ^ 48" by (simp add: pow2_def)
  have W: "x + 1 / 2 = of_int (2 * N + 5) / of_nat 10" by (simp add: x_def)
  have nz: "frac (of_int (2 * N + 5) / of_nat 10 :: rat) \<noteq> 0"
  proof
    assume "frac (of_int (2 * N + 5) / of_nat 10 :: rat) = 0"
    then obtain j :: int where "(of_int (2 * N + 5) / of_nat 10 :: rat) = of_int j"
      by (auto simp: Ints_def)
    then have "(of_int (2 * N + 5) :: rat) = of_int (10 * j)" by simp
    then have "2 * N + 5 = 10 * j" by (simp only: of_int_eq_iff)
    then show False by presburger
  qed
  have g: "1 / 10 \<le> frac (x + 1 / 2)" "frac (x + 1 / 2) \<le> 1 - 1 / 10"
    using frac_grid[of 10 "2 * N + 5"] nz unfolding W by simp_all
  have Wf: "x + 1 / 2 = of_int \<lfloor>x + 1 / 2\<rfloor> + frac (x + 1 / 2)" by (simp add: frac_def)
  have "of_int \<lfloor>x + 1 / 2\<rfloor> + 1 / 2 ^ 48 \<le> x + 1 / 2" using g(1) Wf by simp
  moreover have "(x + 1 / 2) + 1 / 2 ^ 48 < of_int \<lfloor>x + 1 / 2\<rfloor> + 1" using g(2) Wf by simp
  ultimately have "\<lfloor>fl x + 1 / 2\<rfloor> = \<lfloor>x + 1 / 2\<rfloor>" using err by (intro floor_near)
  then have r: "round (fl x) = round x" by (simp add: round_def)
  have fx: "0 \<le> fl x" "fl x \<le> 100"
    using fl_percent(1,2)[of x] xb by simp_all
  have "fl x < pow2 1024" using fx(2) pow2_1024_gt_100 by linarith
  then have "js_round False x = Fin (fl x)" using x0(2) by (intro js_round_nonneg_val) simp_all
  then have "js_div (Fin (of_int N)) (Fin 5) = Fin (fl x)"
    using x0(2) by (simp add: js_div_Fin x_def zero_less_divide_iff not_less)
  then show "Math_round (js_div (Fin (of_int N)) (Fin 5)) = Fin (of_int (round (of_int N / 5 :: rat)))"
    using Math_round_nonneg_val[OF fx(1)] r by (simp add: x_def)
  have "\<lfloor>of_int 16 + 1 / 2 :: rat\<rfloor> \<le> \<lfloor>x + 1 / 2\<rfloor>" using xb(1) by (intro floor_mono) simp
  moreover have "\<lfloor>of_int 16 + 1 / 2 :: rat\<rfloor> = 16" by (rule floor_unique) simp_all
  ultimately show "16 \<le> round (of_int N / 5 :: rat)" by (simp add: round_def x_def)
  have "\<lfloor>x + 1 / 2\<rfloor> \<le> \<lfloor>of_int 56 + 1 / 2 :: rat\<rfloor>" using xb(2) by (intro floor_mono) simp
  moreover have "\<lfloor>of_int 56 + 1 / 2 :: rat\<rfloor> = 56" by (rule floor_unique) simp_all
  ultimately show "round (of_int N / 5 :: rat) \<le> 56" by (simp add: round_def x_def)
qed

lemma bg_range: "js_add (js_sub (Fin 280) (Fin 80)) (Fin 1) = Fin (of_int 201)"
  by (simp add: js_eval)

lemma catalog_portions:
  "fd \<in> set foodDatabase \<Longrightarrow> length (portions fd) = 3 \<or> length (portions fd) = 4"
  by (auto simp: foodDatabase_def)

lemma js_index_in_range:
  assumes "0 \<le> k" "k < int (length xs)"
  shows "js_index xs (Fin (of_int k)) = Some (xs ! nat k)" and "xs ! nat k \<in> set xs"
  using assms by simp_all

lemma is_double_half: "is_double (1 / 2)"
proof -
  have "fl (of_int 1 * pow2 (- 1)) = of_int 1 * pow2 (- 1)" by (rule fl_repr) simp_all
  then have "fl (1 / 2) = 1 / 2" by (simp add: pow2_def)
  moreover have "\<bar>1 / 2 :: rat\<bar> < pow2 1024" using pow2_1024_gt_100 by simp
  ultimately show ?thesis by (simp add: is_double_def)
qed

section \<open>Settings accepted by the quiz\<close>

lemma generateQuestion_settings:
  "generateQuestion st r1 r2 r3 = Inr st' \<Longrightarrow> userSettings st' = userSettings st"
  by (auto simp: generateQuestion_def Let_def split: option.splits)

lemma startQuiz_settings:
  assumes "startQuiz st cr cf tb r1 r2 r3 = Inr st'"
  shows "userSettings st' = \<lparr>carbRatio = cr, correctionFactor = cf, targetBG = tb\<rparr>"
    and "js_lt (Fin 0) cr" and "js_lt (Fin 0) cf" and "js_le (Fin 70) tb" and "js_le tb (Fin 180)"
proof -
  have ok: "truthy cr" "truthy cf" "truthy tb" "\<not> js_le cr (Fin 0)" "\<not> js_le cf (Fin 0)"
      "\<not> js_lt tb (Fin 70)" "\<not> js_gt tb (Fin 180)"
    and gen: "generateQuestion
        (st\<lparr>userSettings := \<lparr>carbRatio = cr, correctionFactor = cf, targetBG = tb\<rparr>\<rparr>) r1 r2 r3 = Inr st'"
    using assms by (auto simp: startQuiz_def split: if_splits)
  show "userSettings st' = \<lparr>carbRatio = cr, correctionFactor = cf, targetBG = tb\<rparr>"
    using generateQuestion_settings[OF gen] by simp
  show "js_lt (Fin 0) cr" using ok(1,4) by (cases cr) (auto simp: js_le_def)
  show "js_lt (Fin 0) cf" using ok(2,5) by (cases cf) (auto simp: js_le_def)
  show "js_le (Fin 70) tb" using ok(3,6) by (cases tb) (auto simp: js_le_def)
  show "js_le tb (Fin 180)" using ok(3,7) by (cases tb) (auto simp: js_le_def js_gt_def)
qed

section \<open>What a graded call computed\<close>

lemma half_away_int_nonneg: "0 \<le> x \<Longrightarrow> half_away_int x = round x"
  by (simp add: half_away_int_def round_def)

lemma spec_round_away_int_nonneg:
  assumes "js_le (Fin 0) a"
  shows "spec_round_away_int a = spec_round_int a"
proof -
  have "0 \<le> val a" using assms by (auto simp: js_nonneg_iff)
  then show ?thesis by (simp add: spec_round_away_int_def spec_round_int_def half_away_int_nonneg)
qed

lemma checkAnswer_Inr:
  assumes "checkAnswer st c i k t rnd = Inr r"
  shows "truthy c" "truthy i" "\<exists>fd. currentFood st = Some fd"
  using assms by (auto simp: checkAnswer_def Let_def split: if_splits option.splits)

lemma checkAnswer_data:
  assumes "checkAnswer st c i k t rnd = Inr r" and "currentFood st = Some fd"
  shows "correctCarbs (data r) =
           Math_round (js_mul (js_sub (totalCarbs fd) (fiber fd)) (to_number (currentPortion st)))"
    and "correctInsulinCarbs (data r) =
           parseFloat_toFixed1 (js_div (correctCarbs (data r)) (carbRatio (userSettings st)))"
    and "correctInsulinCorrection (data r) =
           (if js_gt (js_sub (currentBG st) (targetBG (userSettings st))) (Fin 0)
            then parseFloat_toFixed1 (js_div (js_sub (currentBG st) (targetBG (userSettings st)))
                                        (correctionFactor (userSettings st)))
            else Fin 0)"
    and "correctTotalDose (data r) =
           parseFloat_toFixed1 (js_add (correctInsulinCarbs (data r)) (correctInsulinCorrection (data r)))"
  using assms
  by (auto simp: checkAnswer_def Let_def split: if_splits option.splits)

text \<open>A call is graded exactly when the two fields tested by the script are neither 0 nor
  NaN and a question is shown; and then the tier is the first matching row of the script's
  cascade.\<close>

lemma checkAnswer_refused:
  "\<not> (truthy c \<and> truthy i) \<Longrightarrow>
   checkAnswer st c i k t rnd = Inl (Alert ''Please fill in all fields before checking your answer!'')"
  by (auto simp: checkAnswer_def Let_def strict_eq_null_def strict_eq_undefined_def)

lemma checkAnswer_graded_iff:
  "(\<exists>r. checkAnswer st c i k t rnd = Inr r) \<longleftrightarrow> truthy c \<and> truthy i \<and> currentFood st \<noteq> None"
  by (auto simp: checkAnswer_def Let_def strict_eq_null_def strict_eq_undefined_def
      split: option.splits prod.splits)

lemma checkAnswer_graded:
  assumes "truthy c" "truthy i" "currentFood st = Some fd"
  shows "\<exists>r. checkAnswer st c i k t rnd = Inr r"
  using assms checkAnswer_graded_iff[of st c i k t rnd] by simp


lemma is_double_numeral: "numeral n \<le> (2::int) ^ 53 \<Longrightarrow> is_double (numeral n)"
  using is_double_of_int[of "numeral n"] by simp

section \<open>Doses in tenths\<close>

text \<open>
  On whole numbers below \<open>2\<^sup>2\<^sup>0\<close> every binary64 operation of the oracle is off its exact
  result by at most \<open>2\<^sup>-\<^sup>3\<^sup>2\<close>. A quotient of two such numbers, times ten and plus a half, lies
  on a grid of width \<open>1 / (2 b)\<close>: unless it is an integer (the quotient is a tie), it is
  further from the next integer than the error, and \<^verbatim>\<open>toFixed(1)\<close> gives the digits of the
  exact rounding. Sums and differences of numbers with one decimal are treated alike.
\<close>

lemma fl_err22:
  assumes "\<bar>x\<bar> < 2 ^ 22"
  shows "\<bar>fl x - x\<bar> \<le> 1 / 2 ^ 32"
proof (cases "x = 0")
  case True then show ?thesis by (simp add: fl_zero)
next
  case False
  have "\<bar>x\<bar> < pow2 (21 + 1)" using assms by (simp add: pow2_def)
  then have "\<bar>fl x - x\<bar> \<le> pow2 (21 - 53)" using False by (intro fl_error_le) simp_all
  then show ?thesis by (simp add: pow2_def)
qed

lemma js_round_nonneg_small:
  assumes "0 \<le> x" "x \<le> 2 ^ 52"
  shows "js_round False x = Fin (fl x)"
proof -
  have "\<bar>fl x\<bar> \<le> 2 ^ 52" using assms by (intro fl_small_abs) simp
  then have "fl x < pow2 1024" using pow2_1024_gt by linarith
  then show ?thesis using assms(1) by (intro js_round_nonneg_val)
qed

lemma toFixed1_nonneg_val:
  assumes "0 \<le> z" "z < 10 ^ 21"
  shows "parseFloat_toFixed1 (Fin z) = lit (of_int \<lfloor>z * 10 + 1 / 2\<rfloor> / 10)"
  using assms by (simp add: toFixed1_digits_eq lit_def Let_def)

lemma half_away_1dp_nonneg: "0 \<le> x \<Longrightarrow> half_away_1dp x = of_int \<lfloor>x * 10 + 1 / 2\<rfloor> / 10"
proof (cases "x = 0")
  case True
  have "\<lfloor>1 / 2 :: rat\<rfloor> = 0" by (rule floor_unique) simp_all
  then show ?thesis using True by (simp add: half_away_1dp_def)
next
  case False
  assume "0 \<le> x"
  then have "0 < x" using False by simp
  then show ?thesis by (simp add: half_away_1dp_def)
qed

lemma half_away_1dp_tenth: "0 \<le> k \<Longrightarrow> half_away_1dp (of_int k / 10) = of_int k / 10"
proof -
  assume k: "0 \<le> k"
  have "\<lfloor>of_int k + 1 / 2 :: rat\<rfloor> = k" by (rule floor_unique) simp_all
  then show ?thesis using k by (simp add: half_away_1dp_nonneg)
qed

lemma tenth_lit:
  fixes n :: int
  assumes "0 \<le> n" "n < 2 ^ 25"
  shows "lit (of_int n / 10) = Fin (fl (of_int n / 10))"
    and "0 \<le> fl (of_int n / 10 :: rat)"
    and "\<bar>fl (of_int n / 10) - of_int n / 10\<bar> \<le> 1 / 2 ^ 32"
    and "fl (of_int n / 10) \<le> 2 ^ 22"
proof -
  have "(of_int n :: rat) < of_int (2 ^ 25)" using assms(2) by (simp only: of_int_less_iff)
  then have b: "(of_int n / 10 :: rat) < 2 ^ 22" by simp
  have nn: "(0::rat) \<le> of_int n / 10" using assms(1) by simp
  show "lit (of_int n / 10) = Fin (fl (of_int n / 10))"
    unfolding lit_def using nn b by (intro js_round_nonneg_small) simp_all
  show "0 \<le> fl (of_int n / 10 :: rat)" using nn by (rule fl_nonneg)
  show "\<bar>fl (of_int n / 10) - of_int n / 10\<bar> \<le> 1 / 2 ^ 32"
    using nn b by (intro fl_err22) simp
  have "fl (of_int n / 10) \<le> fl (2 ^ 22)" using b by (intro fl_mono) simp
  moreover have "fl (2 ^ 22 :: rat) = 2 ^ 22" using fl_of_int[of "2 ^ 22"] by simp
  ultimately show "fl (of_int n / 10) \<le> 2 ^ 22" by simp
qed

lemma div_tenths:
  fixes a b :: int
  assumes "0 \<le> a" "a < 2 ^ 20" "0 < b" "b < 2 ^ 20"
  shows "\<exists>n. parseFloat_toFixed1 (js_div (Fin (of_int a)) (Fin (of_int b))) = lit (of_int n / 10)
           \<and> 0 \<le> n \<and> n < 2 ^ 24
           \<and> (of_int n / 10 = half_away_1dp (of_int a / of_int b)
               \<or> is_tie_1dp (of_int a / of_int b)
                 \<and> of_int n / 10 = half_away_1dp (of_int a / of_int b) - 1 / 10)"
proof -
  define q :: rat where "q = of_int a / of_int b"
  define z where "z = fl q"
  define W where "W = q * 10 + 1 / 2"
  define y where "y = z * 10 + 1 / 2"
  define n where "n = \<lfloor>y\<rfloor>"
  have bp: "(0::rat) < of_int b" using assms(3) by simp
  have b1: "(1::rat) \<le> of_int b" using assms(3) by simp
  have a0: "(0::rat) \<le> of_int a" using assms(1) by simp
  have a20: "(of_int a :: rat) < 2 ^ 20"
    using assms(2) of_int_less_iff[of a "2 ^ 20", where ?'a = rat] by simp
  have b20: "(of_int b :: rat) < 2 ^ 20"
    using assms(4) of_int_less_iff[of b "2 ^ 20", where ?'a = rat] by simp
  have q0: "0 \<le> q" using a0 bp by (simp add: q_def)
  have "q \<le> of_int a" using a0 b1 bp by (simp add: q_def pos_divide_le_eq mult_le_cancel_left1)
  then have q20: "q < 2 ^ 20" using a20 by linarith
  have div: "js_div (Fin (of_int a)) (Fin (of_int b)) = Fin z"
  proof -
    have "js_round False q = Fin (fl q)" using q0 q20 by (intro js_round_nonneg_small) simp_all
    moreover have "\<not> (of_int a :: rat) < 0" "\<not> (of_int b :: rat) < 0" using a0 bp by simp_all
    ultimately show ?thesis using bp by (simp add: js_div_Fin q_def z_def)
  qed
  have z0: "0 \<le> z" unfolding z_def using q0 by (rule fl_nonneg)
  define e :: rat where "e = 1 / 2 ^ 32"
  have e: "0 < e" "e < 1 / 1000" by (simp_all add: e_def)
  have "\<bar>z - q\<bar> \<le> 1 / 2 ^ 32" unfolding z_def using q0 q20 by (intro fl_err22) simp
  then have err: "\<bar>z - q\<bar> \<le> e" by (simp only: e_def)
  have q20': "q < 1048576" using q20 by simp
  have "z < 1048577" using err q20' e by linarith
  then have zb: "z < 10 ^ 21" by simp
  have tf: "parseFloat_toFixed1 (Fin z) = lit (of_int n / 10)"
    using toFixed1_nonneg_val[OF z0 zb] by (simp add: n_def y_def)
  have near: "\<bar>y - W\<bar> \<le> 10 * e" unfolding y_def W_def using err by linarith
  have n0: "0 \<le> n" unfolding n_def using z0 by (simp add: y_def)
  have "of_int n \<le> y" unfolding n_def by simp
  also have "y \<le> W + 10 * e" using near by linarith
  also have "\<dots> < 2 ^ 24" using q20' e by (simp add: W_def)
  finally have "(of_int n :: rat) < of_int (2 ^ 24)" by simp
  then have n24: "n < 2 ^ 24" by (simp only: of_int_less_iff)
  have ha: "half_away_1dp q = of_int \<lfloor>W\<rfloor> / 10" using q0 by (simp add: half_away_1dp_nonneg W_def)
  have tie: "is_tie_1dp q \<longleftrightarrow> frac W = 0" using q0 by (simp add: is_tie_1dp_def W_def)
  have Wg: "W = of_int (20 * a + b) / of_nat (nat (2 * b))"
    using bp assms(3) by (simp add: W_def q_def field_simps)
  have nb: "0 < nat (2 * b)" using assms(3) by simp
  have "(of_nat (nat (2 * b)) :: rat) = 2 * of_int b" using assms(3) by simp
  then have lt: "(of_nat (nat (2 * b)) :: rat) < 2 ^ 21" "(0::rat) < of_nat (nat (2 * b))"
    using b20 bp by simp_all
  have "1 / 2 ^ 21 < 1 / (of_nat (nat (2 * b)) :: rat)"
    using lt by (simp only: frac_less2 zero_less_one order_refl)
  moreover have "10 * e < 1 / 2 ^ 21" by (simp add: e_def)
  ultimately have eps: "10 * e < 1 / (of_nat (nat (2 * b)) :: rat)" by (rule less_trans[rotated])
  have main: "n = \<lfloor>W\<rfloor> \<or> frac W = 0 \<and> n = \<lfloor>W\<rfloor> - 1"
  proof (cases "frac W = 0")
    case True
    then have "W = of_int \<lfloor>W\<rfloor>" by (simp add: frac_def)
    then have "\<bar>y - of_int \<lfloor>W\<rfloor>\<bar> \<le> 10 * e" using near by simp
    then have "\<lfloor>y\<rfloor> = \<lfloor>W\<rfloor> \<or> \<lfloor>y\<rfloor> = \<lfloor>W\<rfloor> - 1" using e by (intro floor_near_int) simp_all
    then show ?thesis using True by (auto simp: n_def)
  next
    case False
    have g: "1 / of_nat (nat (2 * b)) \<le> frac W" "frac W \<le> 1 - 1 / of_nat (nat (2 * b))"
      using frac_grid[OF nb, of "20 * a + b"] False unfolding Wg by simp_all
    have Wf: "W = of_int \<lfloor>W\<rfloor> + frac W" by (simp add: frac_def)
    define dl :: rat where "dl = 1 / of_nat (nat (2 * b))"
    note g' = g[folded dl_def] and eps' = eps[folded dl_def]
    have "of_int \<lfloor>W\<rfloor> + 10 * e \<le> W" using g'(1) eps' Wf by linarith
    moreover have "W + 10 * e < of_int \<lfloor>W\<rfloor> + 1" using g'(2) eps' Wf by linarith
    ultimately have "\<lfloor>y\<rfloor> = \<lfloor>W\<rfloor>" using near by (intro floor_near)
    then show ?thesis by (simp add: n_def)
  qed
  have "of_int n / 10 = half_away_1dp q \<or> is_tie_1dp q \<and> of_int n / 10 = half_away_1dp q - 1 / 10"
    using main unfolding ha tie by (auto simp: diff_divide_distrib)
  then show ?thesis using tf n0 n24 unfolding div q_def by blast
qed

lemma add_tenths:
  fixes n m :: int
  assumes "0 \<le> n" "n < 2 ^ 24" "0 \<le> m" "m < 2 ^ 24"
  shows "parseFloat_toFixed1 (js_add (lit (of_int n / 10)) (lit (of_int m / 10)))
           = lit (of_int (n + m) / 10)"
proof -
  define x :: rat where "x = fl (of_int n / 10)"
  define y :: rat where "y = fl (of_int m / 10)"
  define s where "s = x + y"
  define z where "z = fl s"
  have n25: "n < 2 ^ 25" "m < 2 ^ 25" using assms by simp_all
  note tn = tenth_lit[OF assms(1) n25(1), folded x_def]
  note tm = tenth_lit[OF assms(3) n25(2), folded y_def]
  have "(of_int n :: rat) < of_int (2 ^ 24)" "(of_int m :: rat) < of_int (2 ^ 24)"
    using assms by (simp_all only: of_int_less_iff)
  then have nm: "(of_int n / 10 :: rat) < 1677722" "(of_int m / 10 :: rat) < 1677722" by simp_all
  have s0: "0 \<le> s" using tn(2) tm(2) by (simp add: s_def)
  define e :: rat where "e = 1 / 2 ^ 32"
  have e: "0 < e" "e < 1 / 1000" by (simp_all add: e_def)
  have split: "(of_int (n + m) / 10 :: rat) = of_int n / 10 + of_int m / 10"
    by (simp add: add_divide_distrib)
  have se: "\<bar>s - of_int (n + m) / 10\<bar> \<le> 2 * e"
    unfolding s_def split using tn(3) tm(3) unfolding e_def[symmetric] by linarith
  have "s < 4194304" using se nm e unfolding split by linarith
  then have sb: "s < 2 ^ 22" by simp
  have add: "js_add (lit (of_int n / 10)) (lit (of_int m / 10)) = Fin z"
  proof -
    have "js_round False s = Fin (fl s)" using s0 sb by (intro js_round_nonneg_small) simp_all
    moreover have "(x < 0 \<and> y < 0) = False" using tn(2) by simp
    ultimately show ?thesis unfolding tn(1) tm(1) js_add_Fin by (simp only: s_def z_def)
  qed
  have z0: "0 \<le> z" unfolding z_def using s0 by (rule fl_nonneg)
  have "\<bar>z - s\<bar> \<le> 1 / 2 ^ 32" unfolding z_def using s0 sb by (intro fl_err22) simp
  then have ze: "\<bar>z - s\<bar> \<le> e" by (simp only: e_def)
  have "z < 4194305" using ze \<open>s < 4194304\<close> e by linarith
  then have zb: "z < 10 ^ 21" by simp
  have near: "\<bar>(z * 10 + 1 / 2) - (of_int (n + m) + 1 / 2)\<bar> \<le> 30 * e"
    using ze se unfolding split by linarith
  have "\<lfloor>z * 10 + 1 / 2\<rfloor> = n + m"
    using near e by (intro floor_near[where d = "30 * e" and w = "of_int (n + m) + 1 / 2"]) linarith+
  then show ?thesis unfolding add using toFixed1_nonneg_val[OF z0 zb] by simp
qed







lemma catalog_net_carbs:
  assumes "fd \<in> set foodDatabase" "p \<in> set (portions fd)"
  shows "Math_round (js_mul (js_sub (totalCarbs fd) (fiber fd)) p)
           = Fin (of_int (round ((val (totalCarbs fd) - val (fiber fd)) * val p)))"
    and "0 < round ((val (totalCarbs fd) - val (fiber fd)) * val p)"
    and "round ((val (totalCarbs fd) - val (fiber fd)) * val p) < 2 ^ 20"
  using assms by (auto simp: foodDatabase_def round_def js_eval)

lemma whole_cases:
  assumes "whole a"
  shows "\<exists>k. a = Fin (of_int k) \<and> 0 \<le> k \<and> k < 2 ^ 20 \<and> val a = of_int k \<and> (truthy a \<longrightarrow> 0 < k)"
proof -
  obtain q where a: "a = Fin q" using assms by (cases a) (simp_all add: whole_def)
  define j where "j = \<lfloor>q\<rfloor>"
  have w: "of_int \<lfloor>q\<rfloor> = q \<and> 0 \<le> q \<and> q < 2 ^ 20"
    using assms unfolding a whole_def by (simp only: jsnum.case)
  have q: "q = of_int j" "0 \<le> q" "q < 2 ^ 20"
    using w unfolding j_def by (simp_all only: simp_thms)
  have "(of_int j :: rat) < of_int (2 ^ 20)" using q(1,3) by simp
  then have "j < 2 ^ 20" by (simp only: of_int_less_iff)
  moreover have "0 \<le> j" using q(2) unfolding q(1) by simp
  moreover have "truthy a \<longrightarrow> j \<noteq> 0" unfolding a q(1) by simp
  ultimately show ?thesis unfolding a q(1) by (intro exI[of _ j]) auto
qed

lemma js_sub_int:
  fixes a b :: int
  assumes "0 \<le> a" "a < 2 ^ 20" "0 \<le> b" "b < 2 ^ 20"
  shows "js_sub (Fin (of_int a)) (Fin (of_int b)) = Fin (of_int (a - b))"
proof -
  have b: "\<bar>a - b\<bar> < 2 ^ 53" using assms by simp
  have f: "fl (of_int a - of_int b) = of_int (a - b)" using fl_of_int[OF b] by simp
  have "\<bar>of_int a - of_int b :: rat\<bar> = of_int \<bar>a - b\<bar>" by simp
  also have "\<dots> \<le> of_int (2 ^ 52)" using assms by (simp only: of_int_le_iff) simp
  finally have small: "\<bar>of_int a - of_int b :: rat\<bar> \<le> 2 ^ 52" by simp
  have "js_sub (Fin (of_int a)) (Fin (of_int b))
      = js_round ((of_int a :: rat) < 0 \<and> (0 :: rat) \<le> of_int b) (of_int a - of_int b)"
    by (rule js_sub_Fin)
  also have "\<dots> = Fin (of_int (a - b))"
    unfolding js_round_small[OF small] f using assms(1) by (auto simp: zero_of_def)
  finally show ?thesis .
qed

lemma correction_whole:
  assumes "whole bg" "whole tg" "whole cf" "truthy cf"
  shows "\<exists>m. (if js_gt (js_sub bg tg) (Fin 0) then parseFloat_toFixed1 (js_div (js_sub bg tg) cf)
              else Fin 0) = lit (of_int m / 10)
           \<and> 0 \<le> m \<and> m < 2 ^ 24
           \<and> (of_int m / 10 = spec_correctionDose (val bg) (val tg) (val cf)
               \<or> is_tie_1dp ((val bg - val tg) / val cf)
                 \<and> of_int m / 10 = spec_correctionDose (val bg) (val tg) (val cf) - 1 / 10)"
proof -
  obtain g where g: "bg = Fin (of_int g)" "0 \<le> g" "g < 2 ^ 20" "val bg = of_int g"
    using whole_cases[OF assms(1)] by blast
  obtain t where t: "tg = Fin (of_int t)" "0 \<le> t" "t < 2 ^ 20" "val tg = of_int t"
    using whole_cases[OF assms(2)] by blast
  obtain f where f: "cf = Fin (of_int f)" "0 < f" "f < 2 ^ 20" "val cf = of_int f"
    using whole_cases[OF assms(3)] assms(4) by blast
  have sub: "js_sub bg tg = Fin (of_int (g - t))"
    unfolding g(1) t(1) using g(2,3) t(2,3) by (rule js_sub_int)
  have gt: "js_gt (Fin (of_int (g - t))) (Fin 0) \<longleftrightarrow> 0 < g - t" by (simp add: js_gt_Fin)
  have vd: "val bg - val tg = of_int (g - t)" by (simp add: g(4) t(4))
  show ?thesis
  proof (cases "0 < g - t")
    case True
    have a: "0 \<le> g - t" "g - t < 2 ^ 20" using True g(3) t(2) by simp_all
    obtain m where m: "parseFloat_toFixed1 (js_div (Fin (of_int (g - t))) (Fin (of_int f))) = lit (of_int m / 10)"
        "0 \<le> m" "m < 2 ^ 24"
        "of_int m / 10 = half_away_1dp (of_int (g - t) / of_int f)
          \<or> is_tie_1dp (of_int (g - t) / of_int f)
            \<and> of_int m / 10 = half_away_1dp (of_int (g - t) / of_int f) - 1 / 10"
      using div_tenths[OF a f(2,3)] by blast
    have sp: "spec_correctionDose (val bg) (val tg) (of_int f) = half_away_1dp (of_int (g - t) / of_int f)"
      using True unfolding spec_correctionDose_def Let_def vd by simp
    have lhs: "(if js_gt (js_sub bg tg) (Fin 0) then parseFloat_toFixed1 (js_div (js_sub bg tg) cf)
                else Fin 0) = parseFloat_toFixed1 (js_div (Fin (of_int (g - t))) (Fin (of_int f)))"
      using True by (simp only: sub gt f(1) if_True)
    show ?thesis unfolding lhs sp vd f(4)
      by (rule exI[of _ m]) (rule conjI m(1) m(2) m(3) m(4))+
  next
    case False
    have sp: "spec_correctionDose (val bg) (val tg) (val cf) = 0"
      using False unfolding spec_correctionDose_def Let_def vd by simp
    have l0: "lit (of_int 0 / 10) = Fin 0"
      using js_round_nonneg_small[of 0] by (simp add: lit_def fl_zero)
    have lhs: "(if js_gt (js_sub bg tg) (Fin 0) then parseFloat_toFixed1 (js_div (js_sub bg tg) cf)
                else Fin 0) = lit (of_int 0 / 10)"
      using False unfolding l0 by (simp only: sub gt if_False)
    have z: "(0::int) \<le> 0" "(0::int) < 2 ^ 24" "(of_int 0 / 10 :: rat) = 0" by simp_all
    show ?thesis unfolding sp
      by (rule exI[of _ 0]) (rule conjI lhs z disjI1)+
  qed
qed

lemma plain_questionD:
  assumes "plain_question st"
  shows "\<exists>fd p. currentFood st = Some fd \<and> currentPortion st = Some p
           \<and> fd \<in> set foodDatabase \<and> p \<in> set (portions fd)"
    and "whole (currentBG st)" "whole (targetBG (userSettings st))"
    and "whole (carbRatio (userSettings st))" "truthy (carbRatio (userSettings st))"
    and "whole (correctionFactor (userSettings st))" "truthy (correctionFactor (userSettings st))"
  using assms by (auto simp: plain_question_def split: option.splits)

lemma oracle_plain:
  assumes "truthy c" "truthy i" "plain_question st"
    and "currentFood st = Some fd" "currentPortion st = Some p"
  shows "\<exists>r n m. checkAnswer st c i k t rnd = Inr r
      \<and> 0 < netCarbs (spec_computeCorrectDose fd p (currentBG st) (userSettings st))
      \<and> netCarbs (spec_computeCorrectDose fd p (currentBG st) (userSettings st)) < 2 ^ 20
      \<and> correctCarbs (data r) =
          Fin (of_int (netCarbs (spec_computeCorrectDose fd p (currentBG st) (userSettings st))))
      \<and> 0 \<le> n \<and> n < 2 ^ 24 \<and> 0 \<le> m \<and> m < 2 ^ 24
      \<and> correctInsulinCarbs (data r) = lit (of_int n / 10)
      \<and> correctInsulinCorrection (data r) = lit (of_int m / 10)
      \<and> correctTotalDose (data r) = lit (of_int (n + m) / 10)
      \<and> (of_int n / 10 = insulinForCarbs (spec_computeCorrectDose fd p (currentBG st) (userSettings st))
          \<or> is_tie_1dp (of_int (netCarbs (spec_computeCorrectDose fd p (currentBG st) (userSettings st)))
                         / val (carbRatio (userSettings st)))
            \<and> of_int n / 10 =
                insulinForCarbs (spec_computeCorrectDose fd p (currentBG st) (userSettings st)) - 1 / 10)
      \<and> (of_int m / 10 = correctionDose (spec_computeCorrectDose fd p (currentBG st) (userSettings st))
          \<or> is_tie_1dp ((val (currentBG st) - val (targetBG (userSettings st)))
                         / val (correctionFactor (userSettings st)))
            \<and> of_int m / 10 =
                correctionDose (spec_computeCorrectDose fd p (currentBG st) (userSettings st)) - 1 / 10)"
proof -
  define S where "S = spec_computeCorrectDose fd p (currentBG st) (userSettings st)"
  define N where "N = round ((val (totalCarbs fd) - val (fiber fd)) * val p)"
  note pq = plain_questionD[OF assms(3)]
  have cat: "fd \<in> set foodDatabase" "p \<in> set (portions fd)"
    using pq(1) assms(4,5) by auto
  note net = catalog_net_carbs[OF cat, folded N_def]
  obtain r where r: "checkAnswer st c i k t rnd = Inr r"
    using checkAnswer_graded[OF assms(1,2,4)] by blast
  note dat = checkAnswer_data[OF r assms(4)]
  have SN: "netCarbs S = N" by (simp add: S_def spec_computeCorrectDose_def Let_def N_def)
  have cc: "correctCarbs (data r) = Fin (of_int N)" using dat(1) net(1) by (simp add: assms(5))
  obtain cr where cr: "carbRatio (userSettings st) = Fin (of_int cr)" "0 < cr" "cr < 2 ^ 20"
      "val (carbRatio (userSettings st)) = of_int cr"
    using whole_cases[OF pq(4)] pq(5) by blast
  have N0: "0 \<le> N" using net(2) by simp
  obtain n where n: "parseFloat_toFixed1 (js_div (Fin (of_int N)) (Fin (of_int cr))) = lit (of_int n / 10)"
      "0 \<le> n" "n < 2 ^ 24"
      "of_int n / 10 = half_away_1dp (of_int N / of_int cr)
        \<or> is_tie_1dp (of_int N / of_int cr) \<and> of_int n / 10 = half_away_1dp (of_int N / of_int cr) - 1 / 10"
    using div_tenths[OF N0 net(3) cr(2,3)] by blast
  have ci: "correctInsulinCarbs (data r) = lit (of_int n / 10)"
    using dat(2) n(1) by (simp add: cc cr(1))
  have Si: "insulinForCarbs S = half_away_1dp (of_int N / of_int cr)"
    by (simp add: S_def spec_computeCorrectDose_def Let_def N_def cr(4))
  obtain m where m: "(if js_gt (js_sub (currentBG st) (targetBG (userSettings st))) (Fin 0)
        then parseFloat_toFixed1 (js_div (js_sub (currentBG st) (targetBG (userSettings st)))
                                    (correctionFactor (userSettings st)))
        else Fin 0) = lit (of_int m / 10)"
      "0 \<le> m" "m < 2 ^ 24"
      "of_int m / 10 = spec_correctionDose (val (currentBG st)) (val (targetBG (userSettings st)))
                          (val (correctionFactor (userSettings st)))
        \<or> is_tie_1dp ((val (currentBG st) - val (targetBG (userSettings st)))
                       / val (correctionFactor (userSettings st)))
          \<and> of_int m / 10 = spec_correctionDose (val (currentBG st)) (val (targetBG (userSettings st)))
                          (val (correctionFactor (userSettings st))) - 1 / 10"
    using correction_whole[OF pq(2,3,6,7)] by blast
  have cd: "correctInsulinCorrection (data r) = lit (of_int m / 10)"
    using dat(3) m(1) by simp
  have Sc: "correctionDose S = spec_correctionDose (val (currentBG st)) (val (targetBG (userSettings st)))
                          (val (correctionFactor (userSettings st)))"
    by (simp add: S_def spec_computeCorrectDose_def Let_def)
  have ct: "correctTotalDose (data r) = lit (of_int (n + m) / 10)"
    unfolding dat(4) ci cd using n(2,3) m(2,3) by (rule add_tenths)
  show ?thesis
    unfolding S_def[symmetric] SN Si Sc cr(4)
    by (rule exI[of _ r], rule exI[of _ n], rule exI[of _ m])
       (rule conjI r net(2) net(3) cc n(2) n(3) n(4) m(2) m(3) m(4) ci cd ct)+
qed

section \<open>The example scenario, evaluated\<close>

lemma js_NaN:
  "js_add NaN b = NaN" "js_add a NaN = NaN" "js_sub NaN b = NaN" "js_sub a NaN = NaN"
  "js_mul NaN b = NaN" "js_mul a NaN = NaN" "js_div NaN b = NaN" "js_div a NaN = NaN"
  "\<not> js_le NaN b" "\<not> js_le a NaN" "\<not> js_gt NaN b" "\<not> js_gt a NaN"
  by (cases a; cases b; simp add: js_add_def js_sub_def js_mul_def js_div_def js_le_def js_gt_def)+

lemmas scenario_eval = js_NaN checkAnswer_def scenario1_def initial_state_def foodDatabase_def
  displayFeedback_def updateStats_def js_ne_def

lemma run_correct:
  "checkAnswer scenario1 (Fin 17) (lit (17 / 10)) (Fin 1) (lit (27 / 10)) (Fin 0) =
     Inr \<lparr>feedbackType = Correct, messageIndex = Fin 0,
          data = \<lparr>userCarbsEating = Fin 17, userInsulinCarbs = lit (17 / 10),
                  userInsulinCorrection = Fin 1, userTotalDose = lit (27 / 10),
                  correctCarbs = Fin 17, correctInsulinCarbs = lit (17 / 10),
                  correctInsulinCorrection = Fin 1, correctTotalDose = lit (27 / 10)\<rparr>,
          feedback = \<lparr>shownDose = lit (27 / 10), carbsRight = True, insulinCarbsRight = True,
                      correctionRight = True, totalRight = True\<rparr>,
          shownStats = \<lparr>shownAttempts = Fin 1, shownCorrect = Fin 1, accuracy = Fin 100\<rparr>,
          state = scenario1\<lparr>stats := \<lparr>totalAttempts = Fin 1, correctAnswers = Fin 1\<rparr>\<rparr>\<rparr>"
  by (simp add: scenario_eval js_eval)



lemma run_ratio20:
  "checkAnswer scenario_ratio20 (Fin 17) (Fin 1) (Fin 2) (Fin 2) (Fin 0) =
     Inr \<lparr>feedbackType = Correct, messageIndex = Fin 0,
          data = \<lparr>userCarbsEating = Fin 17, userInsulinCarbs = Fin 1,
                  userInsulinCorrection = Fin 2, userTotalDose = Fin 2,
                  correctCarbs = Fin 17, correctInsulinCarbs = lit (8 / 10),
                  correctInsulinCorrection = Fin 1, correctTotalDose = lit (18 / 10)\<rparr>,
          feedback = \<lparr>shownDose = lit (18 / 10), carbsRight = True, insulinCarbsRight = True,
                      correctionRight = False, totalRight = True\<rparr>,
          shownStats = \<lparr>shownAttempts = Fin 1, shownCorrect = Fin 1, accuracy = Fin 100\<rparr>,
          state = scenario_ratio20\<lparr>stats := \<lparr>totalAttempts = Fin 1, correctAnswers = Fin 1\<rparr>\<rparr>\<rparr>"
  by (simp add: scenario_ratio20_def scenario_eval js_eval)

text \<open>The band edges are compared in binary64 arithmetic: against a correct dose of 2.7, a
  total dose of 3.0 is within 0.3 and a total dose of 2.4 is not.\<close>

lemma correct_band_edges:
  "js_le (Math_abs (js_sub (lit 3) (lit (27 / 10)))) (lit (3 / 10))"
  "\<not> js_le (Math_abs (js_sub (lit (24 / 10)) (lit (27 / 10)))) (lit (3 / 10))"
  by (simp_all add: js_eval)


lemma run_bg185:
  "checkAnswer scenario_bg185 (Fin 17) (lit (17 / 10)) (lit (9 / 10)) (lit (26 / 10)) (Fin 0) =
     Inr \<lparr>feedbackType = Correct, messageIndex = Fin 0,
          data = \<lparr>userCarbsEating = Fin 17, userInsulinCarbs = lit (17 / 10),
                  userInsulinCorrection = lit (9 / 10), userTotalDose = lit (26 / 10),
                  correctCarbs = Fin 17, correctInsulinCarbs = lit (17 / 10),
                  correctInsulinCorrection = lit (8 / 10), correctTotalDose = lit (25 / 10)\<rparr>,
          feedback = \<lparr>shownDose = lit (25 / 10), carbsRight = True, insulinCarbsRight = True,
                      correctionRight = True, totalRight = True\<rparr>,
          shownStats = \<lparr>shownAttempts = Fin 1, shownCorrect = Fin 1, accuracy = Fin 100\<rparr>,
          state = scenario_bg185\<lparr>stats := \<lparr>totalAttempts = Fin 1, correctAnswers = Fin 1\<rparr>\<rparr>\<rparr>"
  by (simp add: scenario_bg185_def scenario_eval js_eval)



lemma plain_scenario1: "plain_question scenario1"
  by (simp add: plain_question_def whole_def scenario1_def initial_state_def foodDatabase_def)

lemma floor_one_half: "\<lfloor>1 / 2 :: rat\<rfloor> = 0"
  by (rule floor_unique) simp_all

lemmas spec_eval = floor_one_half spec_computeCorrectDose_def spec_correctionDose_def half_away_1dp_def
  is_tie_1dp_def spec_gradeAttempt_def round_def frac_def

lemma spec_scenario1:
  "spec_computeCorrectDose (foodDatabase ! 0) (Fin 1) (Fin 150)
        \<lparr>carbRatio = Fin 10, correctionFactor = Fin 50, targetBG = Fin 100\<rparr>
     = \<lparr>netCarbs = 17, insulinForCarbs = 17 / 10, correctionDose = 1, totalDose = 27 / 10\<rparr>"
  by (simp add: foodDatabase_def spec_eval js_eval)

lemma spec_ratio20:
  "spec_computeCorrectDose (foodDatabase ! 0) (Fin 1) (Fin 150)
        \<lparr>carbRatio = Fin 20, correctionFactor = Fin 50, targetBG = Fin 100\<rparr>
     = \<lparr>netCarbs = 17, insulinForCarbs = 9 / 10, correctionDose = 1, totalDose = 19 / 10\<rparr>"
  by (simp add: foodDatabase_def spec_eval js_eval)

lemma lit_tenths_differ:
  "lit (8 / 10) \<noteq> lit (9 / 10)" "lit (18 / 10) \<noteq> lit (19 / 10)"
  by (simp_all add: js_eval)

lemma scenario1_fields:
  "currentFood scenario1 = Some (foodDatabase ! 0)" "currentPortion scenario1 = Some (Fin 1)"
  "currentBG scenario1 = Fin 150"
  "userSettings scenario1 = \<lparr>carbRatio = Fin 10, correctionFactor = Fin 50, targetBG = Fin 100\<rparr>"
  "stats scenario1 = \<lparr>totalAttempts = Fin 0, correctAnswers = Fin 0\<rparr>"
  by (simp_all add: scenario1_def initial_state_def)

lemma truthy_answers: "truthy (Fin 17)" "truthy (lit (17 / 10))" "truthy (Fin 5)" "\<not> truthy (Fin 0)"
  by (simp_all add: js_eval)

section \<open>The claims\<close>

text \<open>
  Claim C1. A submission with a missing required field must be turned away before grading,
  with the session statistics unchanged. The code does so for \<^verbatim>\<open>carbs-eating\<close> and
  \<^verbatim>\<open>insulin-carbs\<close>, but its test of \<^verbatim>\<open>total-dose\<close> compares the \<^verbatim>\<open>parseFloat\<close> result
  with \<^verbatim>\<open>null\<close> and \<^verbatim>\<open>undefined\<close>, which a Number never equals: with the total-dose field
  left empty on the first example scenario (and the other fields filled in with 17, 1.7 and
  1), the call grades the submission as \<open>Incorrect\<close> and counts an attempt.
\<close>

theorem empty_total_dose_is_graded:
  "tier_of (checkAnswer scenario1 (Fin 17) (lit (17 / 10)) (Fin 1) NaN (Fin 0)) = Some Incorrect \<and>
   stats_after scenario1 (checkAnswer scenario1 (Fin 17) (lit (17 / 10)) (Fin 1) NaN (Fin 0)) =
     \<lparr>totalAttempts = Fin 1, correctAnswers = Fin 0\<rparr>"
  by (simp add: tier_of_def stats_after_def scenario_eval js_eval)

theorem empty_total_dose_is_graded_witness:
  "totalAttempts (stats_after scenario1 (checkAnswer scenario1 (Fin 17) (lit (17 / 10)) (Fin 1) NaN (Fin 0)))
     = Fin 1"
  using empty_total_dose_is_graded by simp










text \<open>
  Claim C2, as stated, fails. The oracle divides and adds in binary64 arithmetic and lets
  \<^verbatim>\<open>toFixed(1)\<close> round the binary64 result: for one serving of Cheerios with a carb ratio of
  20 (and the glucose 150, the target 100 and the correction factor 50 of the example) it
  returns an insulin for carbs of 0.8 and a total dose of 1.8, where the steps of the
  specification give \<open>round(17 / 20, 1) = round(0.85, 1) = 0.9\<close> and a total dose of 1.9.
\<close>

theorem oracle_exact_formula_counterexample:
  "map_option correctInsulinCarbs
     (data_of (checkAnswer scenario_ratio20 (Fin 17) (Fin 1) (Fin 2) (Fin 2) (Fin 0)))
     = Some (lit (8 / 10))
   \<and> map_option correctTotalDose
     (data_of (checkAnswer scenario_ratio20 (Fin 17) (Fin 1) (Fin 2) (Fin 2) (Fin 0)))
     = Some (lit (18 / 10))
   \<and> spec_computeCorrectDose (foodDatabase ! 0) (Fin 1) (Fin 150)
        \<lparr>carbRatio = Fin 20, correctionFactor = Fin 50, targetBG = Fin 100\<rparr>
     = \<lparr>netCarbs = 17, insulinForCarbs = 9 / 10, correctionDose = 1, totalDose = 19 / 10\<rparr>
   \<and> lit (8 / 10) \<noteq> lit (9 / 10) \<and> lit (18 / 10) \<noteq> lit (19 / 10)"
  unfolding run_ratio20 spec_ratio20 using lit_tenths_differ by (simp add: data_of_def)

text \<open>
  Claim C2, amended. Every accepted call on a shown question computes the five steps on
  binary64 values: the net carbs are the binary64 product rounded to the nearest integer,
  the insulin for carbs and the correction dose are the binary64 quotients rounded half away
  from zero to one decimal, and the total dose is their binary64 sum rounded likewise, each
  step on the rounded result of the one before. On a question drawn from the catalog, with
  whole-number glucose and settings below \<open>2\<^sup>2\<^sup>0\<close>, the net carbs are those of the
  specification's step 1; the insulin for carbs and the correction dose are the values of
  its steps 2 and 4, except that where the exact quotient lies exactly halfway between two
  tenths the value may be the tenth below; and the total dose is the sum of these two
  values, which is the value of step 5 when neither of the two deviates. Doses are held as
  the nearest binary64 values. The witness is the Cheerios example of the claim: 17 g, 1.7,
  1.0 and 2.7 units.
\<close>

theorem oracle_agrees_off_ties:
  assumes "truthy c" and "truthy i" and "currentFood st = Some fd"
  shows "\<exists>r. checkAnswer st c i k t rnd = Inr r
       \<and> correctCarbs (data r) =
           spec_round_int (js_mul (js_sub (totalCarbs fd) (fiber fd)) (to_number (currentPortion st)))
       \<and> correctInsulinCarbs (data r) =
           spec_round_1dp (js_div (correctCarbs (data r)) (carbRatio (userSettings st)))
       \<and> correctInsulinCorrection (data r) =
           (if js_gt (js_sub (currentBG st) (targetBG (userSettings st))) (Fin 0)
            then spec_round_1dp (js_div (js_sub (currentBG st) (targetBG (userSettings st)))
                                        (correctionFactor (userSettings st)))
            else Fin 0)
       \<and> correctTotalDose (data r) =
           spec_round_1dp (js_add (correctInsulinCarbs (data r)) (correctInsulinCorrection (data r)))
       \<and> (plain_question st \<longrightarrow>
            (let S = spec_computeCorrectDose fd (to_number (currentPortion st)) (currentBG st)
                       (userSettings st)
             in \<exists>x y. correctCarbs (data r) = Fin (of_int (netCarbs S))
                 \<and> correctInsulinCarbs (data r) = lit x
                 \<and> correctInsulinCorrection (data r) = lit y
                 \<and> correctTotalDose (data r) = lit (half_away_1dp (x + y))
                 \<and> (x = insulinForCarbs S
                     \<or> is_tie_1dp (of_int (netCarbs S) / val (carbRatio (userSettings st)))
                       \<and> x = insulinForCarbs S - 1 / 10)
                 \<and> (y = correctionDose S
                     \<or> is_tie_1dp ((val (currentBG st) - val (targetBG (userSettings st)))
                                    / val (correctionFactor (userSettings st)))
                       \<and> y = correctionDose S - 1 / 10)
                 \<and> (x = insulinForCarbs S \<and> y = correctionDose S
                       \<longrightarrow> correctTotalDose (data r) = lit (totalDose S))))"
proof -
  obtain r where r: "checkAnswer st c i k t rnd = Inr r"
    using checkAnswer_graded[OF assms] by blast
  note dat = checkAnswer_data[OF r assms(3)]
  have g1: "correctCarbs (data r) =
      spec_round_int (js_mul (js_sub (totalCarbs fd) (fiber fd)) (to_number (currentPortion st)))"
    unfolding dat(1) by (simp add: Math_round_refines wf_js_mul)
  have g2: "correctInsulinCarbs (data r) =
      spec_round_1dp (js_div (correctCarbs (data r)) (carbRatio (userSettings st)))"
    unfolding dat(2) by (simp add: toFixed1_refines wf_js_div)
  have g3: "correctInsulinCorrection (data r) =
      (if js_gt (js_sub (currentBG st) (targetBG (userSettings st))) (Fin 0)
       then spec_round_1dp (js_div (js_sub (currentBG st) (targetBG (userSettings st)))
                                   (correctionFactor (userSettings st)))
       else Fin 0)"
    unfolding dat(3) by (simp add: toFixed1_refines wf_js_div)
  have g4: "correctTotalDose (data r) =
      spec_round_1dp (js_add (correctInsulinCarbs (data r)) (correctInsulinCorrection (data r)))"
    unfolding dat(4) by (simp add: toFixed1_refines wf_js_add)
  have w: "let S = spec_computeCorrectDose fd (to_number (currentPortion st)) (currentBG st)
                       (userSettings st)
           in \<exists>x y. correctCarbs (data r) = Fin (of_int (netCarbs S))
                 \<and> correctInsulinCarbs (data r) = lit x
                 \<and> correctInsulinCorrection (data r) = lit y
                 \<and> correctTotalDose (data r) = lit (half_away_1dp (x + y))
                 \<and> (x = insulinForCarbs S
                     \<or> is_tie_1dp (of_int (netCarbs S) / val (carbRatio (userSettings st)))
                       \<and> x = insulinForCarbs S - 1 / 10)
                 \<and> (y = correctionDose S
                     \<or> is_tie_1dp ((val (currentBG st) - val (targetBG (userSettings st)))
                                    / val (correctionFactor (userSettings st)))
                       \<and> y = correctionDose S - 1 / 10)
                 \<and> (x = insulinForCarbs S \<and> y = correctionDose S
                       \<longrightarrow> correctTotalDose (data r) = lit (totalDose S))"
    if pq: "plain_question st"
  proof -
    obtain p where p: "currentPortion st = Some p"
      using plain_questionD(1)[OF pq] by blast
    define S where "S = spec_computeCorrectDose fd p (currentBG st) (userSettings st)"
    obtain r' n m where o: "checkAnswer st c i k t rnd = Inr r'"
        "correctCarbs (data r') = Fin (of_int (netCarbs S))"
        "0 \<le> n" "0 \<le> m"
        "correctInsulinCarbs (data r') = lit (of_int n / 10)"
        "correctInsulinCorrection (data r') = lit (of_int m / 10)"
        "correctTotalDose (data r') = lit (of_int (n + m) / 10)"
        "of_int n / 10 = insulinForCarbs S
          \<or> is_tie_1dp (of_int (netCarbs S) / val (carbRatio (userSettings st)))
            \<and> of_int n / 10 = insulinForCarbs S - 1 / 10"
        "of_int m / 10 = correctionDose S
          \<or> is_tie_1dp ((val (currentBG st) - val (targetBG (userSettings st)))
                         / val (correctionFactor (userSettings st)))
            \<and> of_int m / 10 = correctionDose S - 1 / 10"
      using oracle_plain[OF assms(1,2) pq assms(3) p, of k t rnd] unfolding S_def by blast
    have rr: "r' = r" using o(1) r by simp
    note o' = o[unfolded rr]
    have sum: "half_away_1dp (of_int n / 10 + of_int m / 10) = of_int (n + m) / 10"
      using half_away_1dp_tenth[of "n + m"] o(3,4) by (simp add: add_divide_distrib)
    have tot: "correctTotalDose (data r) = lit (half_away_1dp (of_int n / 10 + of_int m / 10))"
      unfolding sum by (rule o'(7))
    have St: "totalDose S = half_away_1dp (insulinForCarbs S + correctionDose S)"
      by (simp add: S_def spec_computeCorrectDose_def Let_def)
    have last: "of_int n / 10 = insulinForCarbs S \<and> of_int m / 10 = correctionDose S
        \<longrightarrow> correctTotalDose (data r) = lit (totalDose S)"
      unfolding St using tot by auto
    show ?thesis
      unfolding Let_def p to_number.simps S_def[symmetric]
      by (rule exI[of _ "of_int n / 10"], rule exI[of _ "of_int m / 10"])
         (rule conjI o'(2) o'(5) o'(6) tot o'(8) o'(9) last)+
  qed
  show ?thesis
    by (rule exI[of _ r]) (intro conjI impI r g1 g2 g3 g4 w)
qed

theorem oracle_agrees_off_ties_witness:
  "truthy (Fin 17) \<and> truthy (lit (17 / 10)) \<and> plain_question scenario1
   \<and> currentFood scenario1 = Some (foodDatabase ! 0) \<and> currentPortion scenario1 = Some (Fin 1)
   \<and> (\<exists>r. checkAnswer scenario1 (Fin 17) (lit (17 / 10)) (Fin 1) (lit (27 / 10)) (Fin 0) = Inr r
          \<and> correctCarbs (data r) = Fin 17 \<and> correctInsulinCarbs (data r) = lit (17 / 10)
          \<and> correctInsulinCorrection (data r) = Fin 1 \<and> correctTotalDose (data r) = lit (27 / 10))
   \<and> spec_computeCorrectDose (foodDatabase ! 0) (Fin 1) (Fin 150)
        \<lparr>carbRatio = Fin 10, correctionFactor = Fin 50, targetBG = Fin 100\<rparr>
       = \<lparr>netCarbs = 17, insulinForCarbs = 17 / 10, correctionDose = 1, totalDose = 27 / 10\<rparr>"
proof -
  have run: "\<exists>r. checkAnswer scenario1 (Fin 17) (lit (17 / 10)) (Fin 1) (lit (27 / 10)) (Fin 0) = Inr r
          \<and> correctCarbs (data r) = Fin 17 \<and> correctInsulinCarbs (data r) = lit (17 / 10)
          \<and> correctInsulinCorrection (data r) = Fin 1 \<and> correctTotalDose (data r) = lit (27 / 10)"
    unfolding run_correct by simp
  show ?thesis
    using oracle_agrees_off_ties[OF truthy_answers(1,2) scenario1_fields(1),
        of "Fin 1" "lit (27 / 10)" "Fin 0"]
    by - (rule conjI truthy_answers plain_scenario1 scenario1_fields run spec_scenario1)+
qed

text \<open>
  Claim C4, as stated, fails. The quotient the code rounds is a binary64 value, not the
  exact quotient: for one serving of Cheerios (17 g net) and a carb ratio of 20 the quotient
  \<open>17 / 20\<close> is stored as the nearest binary64 value, which lies just below 0.85, and
  \<^verbatim>\<open>toFixed(1)\<close> gives 0.8, where rounding the exact 0.85 half away from zero gives 0.9.
\<close>

theorem exact_half_away_counterexample:
  "map_option correctInsulinCarbs
     (data_of (checkAnswer scenario_ratio20 (Fin 17) (Fin 1) (Fin 2) (Fin 2) (Fin 0)))
     = Some (lit (8 / 10))
   \<and> half_away_1dp (17 / 20) = 9 / 10
   \<and> lit (8 / 10) \<noteq> lit (9 / 10)"
  by (simp add: run_ratio20 data_of_def half_away_1dp_def js_eval)

text \<open>
  Claim C4, amended. Each dose quantity is the half-away-from-zero rounding to one decimal
  place of the binary64 quotient or sum the code computed (as the nearest binary64 value),
  and the net carbs are the integer half-away-from-zero rounding of the binary64 product
  whenever that product is not negative.
\<close>

theorem doses_round_double_values:
  assumes "checkAnswer st c i k t rnd = Inr r" and "currentFood st = Some fd"
  shows "correctInsulinCarbs (data r) =
           spec_round_1dp (js_div (correctCarbs (data r)) (carbRatio (userSettings st)))
       \<and> correctInsulinCorrection (data r) =
           (if js_gt (js_sub (currentBG st) (targetBG (userSettings st))) (Fin 0)
            then spec_round_1dp (js_div (js_sub (currentBG st) (targetBG (userSettings st)))
                                        (correctionFactor (userSettings st)))
            else Fin 0)
       \<and> correctTotalDose (data r) =
           spec_round_1dp (js_add (correctInsulinCarbs (data r)) (correctInsulinCorrection (data r)))
       \<and> (js_le (Fin 0) (js_mul (js_sub (totalCarbs fd) (fiber fd)) (to_number (currentPortion st)))
            \<longrightarrow> correctCarbs (data r) =
              spec_round_away_int (js_mul (js_sub (totalCarbs fd) (fiber fd)) (to_number (currentPortion st))))"
  using checkAnswer_data[OF assms]
  by (simp add: toFixed1_refines wf_js_mul wf_js_div wf_js_add Math_round_refines
      spec_round_away_int_nonneg)

theorem doses_round_double_values_witness:
  "\<exists>r. checkAnswer scenario_ratio20 (Fin 17) (Fin 1) (Fin 2) (Fin 2) (Fin 0) = Inr r
       \<and> currentFood scenario_ratio20 = Some (foodDatabase ! 0)
       \<and> correctInsulinCarbs (data r) = spec_round_1dp (js_div (Fin 17) (Fin 20))
       \<and> correctInsulinCarbs (data r) = lit (8 / 10)
       \<and> correctCarbs (data r) = spec_round_away_int (js_mul (js_sub (Fin 20) (Fin 3)) (Fin 1))"
  using doses_round_double_values[OF run_ratio20, of "foodDatabase ! 0"] run_ratio20
  by (simp add: scenario_ratio20_def scenario1_def initial_state_def foodDatabase_def
      spec_round_1dp_def spec_round_away_int_def half_away_1dp_def half_away_int_def js_eval)

text \<open>
  Claim C5, as stated, fails in its last part. Above the target the correction dose is the
  rounding of the binary64 quotient, not of the exact one: with a glucose of 185, a target of
  100 and a correction factor of 100 the quotient \<open>85 / 100\<close> is stored just below 0.85 and
  the correction dose is 0.8, where \<open>round(0.85, 1) = 0.9\<close>.
\<close>

theorem correction_exact_quotient_counterexample:
  "map_option correctInsulinCorrection
     (data_of (checkAnswer scenario_bg185 (Fin 17) (lit (17 / 10)) (lit (9 / 10)) (lit (26 / 10)) (Fin 0)))
     = Some (lit (8 / 10))
   \<and> currentBG scenario_bg185 = Fin 185
   \<and> userSettings scenario_bg185 = \<lparr>carbRatio = Fin 10, correctionFactor = Fin 100, targetBG = Fin 100\<rparr>
   \<and> spec_correctionDose 185 100 100 = 9 / 10
   \<and> lit (8 / 10) \<noteq> lit (9 / 10)"
proof -
  have "currentBG scenario_bg185 = Fin 185"
    "userSettings scenario_bg185 = \<lparr>carbRatio = Fin 10, correctionFactor = Fin 100, targetBG = Fin 100\<rparr>"
    by (simp_all add: scenario_bg185_def scenario1_def initial_state_def)
  moreover have "spec_correctionDose 185 100 100 = 9 / 10" by (simp add: spec_eval js_eval)
  ultimately show ?thesis unfolding run_bg185 using lit_tenths_differ(1) by (simp add: data_of_def)
qed

text \<open>
  Claim C5, amended. For finite blood glucose values and a finite positive correction
  factor, every accepted call on a shown question computes a correction dose that is never
  negative and is exactly 0 whenever the current glucose is at or below the target; above
  the target it is the binary64 quotient of the glucose difference by the correction factor,
  rounded half away from zero to one decimal; and for whole numbers below \<open>2\<^sup>2\<^sup>0\<close> it is the
  value of the specification's step 4, or the tenth below it when the exact quotient lies
  exactly halfway between two tenths.
\<close>

theorem correction_dose_from_double_quotient:
  assumes "truthy c" and "truthy i" and "currentFood st = Some fd"
    and "finite_double (currentBG st)" and "finite_double (targetBG (userSettings st))"
    and "finite_num (correctionFactor (userSettings st))"
    and "js_lt (Fin 0) (correctionFactor (userSettings st))"
  shows "\<exists>r. checkAnswer st c i k t rnd = Inr r
       \<and> js_le (Fin 0) (correctInsulinCorrection (data r))
       \<and> (js_le (currentBG st) (targetBG (userSettings st))
            \<longrightarrow> correctInsulinCorrection (data r) = Fin 0)
       \<and> (js_gt (currentBG st) (targetBG (userSettings st))
            \<longrightarrow> correctInsulinCorrection (data r) =
                 spec_round_1dp (js_div (js_sub (currentBG st) (targetBG (userSettings st)))
                                        (correctionFactor (userSettings st))))
       \<and> (whole (currentBG st) \<and> whole (targetBG (userSettings st))
            \<and> whole (correctionFactor (userSettings st))
            \<longrightarrow> correctInsulinCorrection (data r) =
                   lit (spec_correctionDose (val (currentBG st)) (val (targetBG (userSettings st)))
                          (val (correctionFactor (userSettings st))))
              \<or> is_tie_1dp ((val (currentBG st) - val (targetBG (userSettings st)))
                             / val (correctionFactor (userSettings st)))
                \<and> correctInsulinCorrection (data r) =
                   lit (spec_correctionDose (val (currentBG st)) (val (targetBG (userSettings st)))
                          (val (correctionFactor (userSettings st))) - 1 / 10))"
proof -
  obtain r where r: "checkAnswer st c i k t rnd = Inr r"
    using checkAnswer_graded[OF assms(1,2,3)] by blast
  let ?d = "js_sub (currentBG st) (targetBG (userSettings st))"
  let ?cf = "correctionFactor (userSettings st)"
  note cd = checkAnswer_data(3)[OF r assms(3)]
  have fin: "finite_num (currentBG st)" "finite_num (targetBG (userSettings st))"
    using assms(4,5) finite_double_cases by blast+
  have 1: "js_le (Fin 0) (correctInsulinCorrection (data r))"
  proof (cases "js_gt ?d (Fin 0)")
    case True
    then have "js_le (Fin 0) ?d" by (cases ?d) (auto simp: js_gt_def js_le_def)
    then have "js_le (Fin 0) (js_div ?d ?cf)"
      using assms(6,7) by (intro js_div_nonneg)
    then show ?thesis using True by (simp add: cd toFixed1_nonneg)
  next
    case False
    then show ?thesis by (simp add: cd js_le_def)
  qed
  have 2: "correctInsulinCorrection (data r) = Fin 0"
    if "js_le (currentBG st) (targetBG (userSettings st))"
    using js_sub_not_pos[OF fin that] by (simp add: cd)
  have 3: "correctInsulinCorrection (data r) = spec_round_1dp (js_div ?d ?cf)"
    if "js_gt (currentBG st) (targetBG (userSettings st))"
  proof -
    have "js_gt ?d (Fin 0)" using that assms(4,5) by (intro js_sub_pos) (simp_all add: js_gt_def)
    then show ?thesis by (simp add: cd toFixed1_refines wf_js_div)
  qed
  have 4: "correctInsulinCorrection (data r) =
             lit (spec_correctionDose (val (currentBG st)) (val (targetBG (userSettings st))) (val ?cf))
         \<or> is_tie_1dp ((val (currentBG st) - val (targetBG (userSettings st))) / val ?cf)
           \<and> correctInsulinCorrection (data r) =
             lit (spec_correctionDose (val (currentBG st)) (val (targetBG (userSettings st))) (val ?cf)
                    - 1 / 10)"
    if w: "whole (currentBG st) \<and> whole (targetBG (userSettings st)) \<and> whole ?cf"
  proof -
    have tr: "truthy ?cf" using assms(7) by (cases ?cf) auto
    obtain m where m: "correctInsulinCorrection (data r) = lit (of_int m / 10)"
        "of_int m / 10 = spec_correctionDose (val (currentBG st)) (val (targetBG (userSettings st))) (val ?cf)
          \<or> is_tie_1dp ((val (currentBG st) - val (targetBG (userSettings st))) / val ?cf)
            \<and> of_int m / 10 =
               spec_correctionDose (val (currentBG st)) (val (targetBG (userSettings st))) (val ?cf) - 1 / 10"
      using correction_whole[of "currentBG st" "targetBG (userSettings st)" ?cf] w tr
      unfolding cd[symmetric] by blast
    show ?thesis using m(2) unfolding m(1) by (elim disjE conjE) (simp_all only: simp_thms)
  qed
  show ?thesis using r 1 2 3 4 by (intro exI[of _ r]) blast
qed

theorem correction_dose_from_double_quotient_witness:
  "truthy (Fin 17) \<and> truthy (lit (17 / 10)) \<and> currentFood scenario1 = Some (foodDatabase ! 0)
   \<and> finite_double (currentBG scenario1) \<and> finite_double (targetBG (userSettings scenario1))
   \<and> finite_num (correctionFactor (userSettings scenario1))
   \<and> js_lt (Fin 0) (correctionFactor (userSettings scenario1))
   \<and> js_gt (currentBG scenario1) (targetBG (userSettings scenario1))
   \<and> whole (currentBG scenario1) \<and> whole (targetBG (userSettings scenario1))
   \<and> whole (correctionFactor (userSettings scenario1))
   \<and> (\<exists>r. checkAnswer scenario1 (Fin 17) (lit (17 / 10)) (Fin 1) (lit (27 / 10)) (Fin 0) = Inr r
          \<and> js_le (Fin 0) (correctInsulinCorrection (data r))
          \<and> correctInsulinCorrection (data r) = Fin 1)
   \<and> spec_round_1dp (js_div (js_sub (Fin 150) (Fin 100)) (Fin 50)) = Fin 1
   \<and> lit (spec_correctionDose 150 100 50) = Fin 1"
proof -
  have h: "finite_double (currentBG scenario1)" "finite_double (targetBG (userSettings scenario1))"
      "finite_num (correctionFactor (userSettings scenario1))"
      "js_lt (Fin 0) (correctionFactor (userSettings scenario1))"
    unfolding scenario1_fields by (simp_all add: is_double_numeral)
  have w: "js_gt (currentBG scenario1) (targetBG (userSettings scenario1))"
      "whole (currentBG scenario1)" "whole (targetBG (userSettings scenario1))"
      "whole (correctionFactor (userSettings scenario1))"
    unfolding scenario1_fields by (simp_all add: whole_def js_gt_def)
  have run: "\<exists>r. checkAnswer scenario1 (Fin 17) (lit (17 / 10)) (Fin 1) (lit (27 / 10)) (Fin 0) = Inr r
          \<and> js_le (Fin 0) (correctInsulinCorrection (data r))
          \<and> correctInsulinCorrection (data r) = Fin 1"
    unfolding run_correct by (simp add: js_le_def)
  have v: "spec_round_1dp (js_div (js_sub (Fin 150) (Fin 100)) (Fin 50)) = Fin 1"
      "lit (spec_correctionDose 150 100 50) = Fin 1"
    by (simp_all add: spec_round_1dp_def spec_eval js_eval)
  show ?thesis
    using correction_dose_from_double_quotient[OF truthy_answers(1,2) scenario1_fields(1) h,
        of "Fin 1" "lit (27 / 10)" "Fin 0"]
    by - (rule conjI truthy_answers scenario1_fields h w run v)+
qed

text \<open>
  Claim C9. For a food with finite fiber not above its finite total carbs and a finite
  positive portion, the oracle's net carbs are not negative; and each of the twelve entries
  of the catalog has its fiber not above its total carbs.
\<close>

theorem net_carbs_never_negative:
  assumes "checkAnswer st c i k t rnd = Inr r" and "currentFood st = Some fd"
    and "finite_num (totalCarbs fd)" and "finite_num (fiber fd)"
    and "js_le (fiber fd) (totalCarbs fd)"
    and "currentPortion st = Some p" and "finite_num p" and "js_lt (Fin 0) p"
  shows "js_le (Fin 0) (correctCarbs (data r))
       \<and> (\<forall>f \<in> set foodDatabase. js_le (fiber f) (totalCarbs f))
       \<and> length foodDatabase = 12"
proof -
  have "js_le (Fin 0) (js_sub (totalCarbs fd) (fiber fd))"
    using assms(3,4,5) by (rule js_sub_nonneg)
  then have "js_le (Fin 0) (js_mul (js_sub (totalCarbs fd) (fiber fd)) p)"
    using assms(8,7) by (rule js_mul_nonneg)
  then have "js_le (Fin 0) (correctCarbs (data r))"
    unfolding checkAnswer_data(1)[OF assms(1,2)] assms(6) by (simp add: Math_round_nonneg)
  moreover have "\<forall>f \<in> set foodDatabase. js_le (fiber f) (totalCarbs f)"
    by (simp add: foodDatabase_def js_le_def)
  moreover have "length foodDatabase = 12" by (simp add: foodDatabase_def)
  ultimately show ?thesis by blast
qed

theorem net_carbs_never_negative_witness:
  "\<exists>r. checkAnswer scenario1 (Fin 17) (lit (17 / 10)) (Fin 1) (lit (27 / 10)) (Fin 0) = Inr r
       \<and> currentFood scenario1 = Some (foodDatabase ! 0)
       \<and> js_le (fiber (foodDatabase ! 0)) (totalCarbs (foodDatabase ! 0))
       \<and> currentPortion scenario1 = Some (Fin 1) \<and> js_lt (Fin 0) (Fin 1)
       \<and> js_le (Fin 0) (correctCarbs (data r)) \<and> correctCarbs (data r) = Fin 17"
  using net_carbs_never_negative[OF run_correct, of "foodDatabase ! 0" "Fin 1"] run_correct
  by (simp add: scenario1_def initial_state_def foodDatabase_def js_le_def)

text \<open>
  Claim C7, as stated, fails. The code computes \<^verbatim>\<open>(correctAnswers / totalAttempts) * 100\<close>
  in binary64 arithmetic, and the rounded quotient times 100 can fall just below a half that
  the exact \<open>100 * correctAnswers / totalAttempts\<close> reaches: with 23 correct answers of 40
  attempts the product is \<open>57.49999999999999\<close> and the page shows 57, where
  \<open>round(100 * 23 / 40) = round(57.5) = 58\<close>.
\<close>

theorem accuracy_formula_counterexample:
  "accuracy (updateStats \<lparr>totalAttempts = Fin 40, correctAnswers = Fin 23\<rparr>) = Fin 57
   \<and> spec_accuracyPercent 23 40 = 58"
  by (simp add: updateStats_def spec_accuracyPercent_def round_def js_eval)

text \<open>
  Claim C7, amended. After at most \<open>2\<^sup>4\<^sup>0\<close> attempts, of which \<open>c \<le> t\<close> were correct, the
  accuracy shown is 0 when there was no attempt; it is \<open>round(100 * c / t)\<close> whenever
  \<open>100 * c / t\<close> is not exactly halfway between two integers; and when it is halfway, the
  accuracy shown is that rounded value or the integer below it.
\<close>

theorem accuracy_rounds_double_product:
  fixes c t :: nat
  assumes "c \<le> t" and "t < 2 ^ 40"
  shows "(t = 0 \<longrightarrow>
            accuracy (updateStats \<lparr>totalAttempts = Fin (of_nat t), correctAnswers = Fin (of_nat c)\<rparr>)
              = Fin 0)
       \<and> (0 < t \<and> frac (100 * of_nat c / of_nat t + 1 / 2 :: rat) \<noteq> 0 \<longrightarrow>
            accuracy (updateStats \<lparr>totalAttempts = Fin (of_nat t), correctAnswers = Fin (of_nat c)\<rparr>)
              = Fin (of_int (spec_accuracyPercent c t)))
       \<and> (0 < t \<and> frac (100 * of_nat c / of_nat t + 1 / 2 :: rat) = 0 \<longrightarrow>
            accuracy (updateStats \<lparr>totalAttempts = Fin (of_nat t), correctAnswers = Fin (of_nat c)\<rparr>)
              = Fin (of_int (spec_accuracyPercent c t))
          \<or> accuracy (updateStats \<lparr>totalAttempts = Fin (of_nat t), correctAnswers = Fin (of_nat c)\<rparr>)
              = Fin (of_int (spec_accuracyPercent c t - 1)))"
proof (cases "t = 0")
  case True
  then show ?thesis by (simp add: updateStats_def js_gt_def)
next
  case False
  then have tp: "0 < t" by simp
  define A where "A = accuracy (updateStats \<lparr>totalAttempts = Fin (of_nat t), correctAnswers = Fin (of_nat c)\<rparr>)"
  define W where "W = (100 * of_nat c / of_nat t + 1 / 2 :: rat)"
  have S: "spec_accuracyPercent c t = \<lfloor>W\<rfloor>"
    using tp by (simp add: spec_accuracyPercent_def round_def W_def)
  have main: "(frac W \<noteq> 0 \<longrightarrow> A = Fin (of_int \<lfloor>W\<rfloor>))
       \<and> (frac W = 0 \<longrightarrow> A = Fin (of_int \<lfloor>W\<rfloor>) \<or> A = Fin (of_int (\<lfloor>W\<rfloor> - 1)))"
  proof (cases "c = 0")
    case True
    have W: "W = 1 / 2" using True by (simp add: W_def)
    have f: "\<lfloor>1 / 2 :: rat\<rfloor> = 0" by (rule floor_unique) simp_all
    have "A = Fin 0" using accuracy_zero_correct[OF tp] True by (simp add: A_def)
    then show ?thesis unfolding W frac_def f by simp
  next
    case False
    then have cp: "0 < c" by simp
    obtain y :: rat where y: "A = Fin (of_int (round y))"
        "\<bar>y - 100 * of_nat c / of_nat t\<bar> \<le> 1 / 2 ^ 45"
      using accuracy_value[OF cp assms(1)] unfolding A_def by blast
    have near: "\<bar>(y + 1 / 2) - W\<bar> \<le> 1 / 2 ^ 45" using y(2) by (simp add: W_def)
    have ry: "round y = \<lfloor>y + 1 / 2\<rfloor>" by (simp add: round_def)
    have "2 * t < 2 ^ 45" using assms(2) by simp
    then have "(of_nat (2 * t) :: rat) < of_nat (2 ^ 45)" by (simp only: of_nat_less_iff)
    then have lt: "(of_nat (2 * t) :: rat) < 2 ^ 45" by simp
    have n2: "(0::rat) < of_nat (2 * t)" using tp by simp
    have eps: "1 / 2 ^ 45 < 1 / (of_nat (2 * t) :: rat)"
      using lt n2 by (simp only: frac_less2 zero_less_one order_refl)
    have Wg: "W = of_int (int (200 * c + t)) / of_nat (2 * t)"
      using tp by (simp add: W_def field_simps)
    show ?thesis
    proof (cases "frac W = 0")
      case True
      then have "W = of_int \<lfloor>W\<rfloor>" by (simp add: frac_def)
      then have "\<bar>(y + 1 / 2) - of_int \<lfloor>W\<rfloor>\<bar> \<le> 1 / 2 ^ 45" using near by simp
      then have "\<lfloor>y + 1 / 2\<rfloor> = \<lfloor>W\<rfloor> \<or> \<lfloor>y + 1 / 2\<rfloor> = \<lfloor>W\<rfloor> - 1"
        by (rule floor_near_int) simp
      then show ?thesis using True y(1) ry by auto
    next
      case False
      have g: "1 / of_nat (2 * t) \<le> frac W" "frac W \<le> 1 - 1 / of_nat (2 * t)"
        using frac_grid[of "2 * t" "int (200 * c + t)"] False tp unfolding Wg by simp_all
      have Wf: "W = of_int \<lfloor>W\<rfloor> + frac W" by (simp add: frac_def)
      have "of_int \<lfloor>W\<rfloor> + 1 / 2 ^ 45 \<le> W" using g(1) eps Wf by linarith
      moreover have "W + 1 / 2 ^ 45 < of_int \<lfloor>W\<rfloor> + 1" using g(2) eps Wf by linarith
      ultimately have "\<lfloor>y + 1 / 2\<rfloor> = \<lfloor>W\<rfloor>" using near by (intro floor_near)
      then show ?thesis using False y(1) ry by simp
    qed
  qed
  show ?thesis using main tp unfolding A_def[symmetric] W_def[symmetric] S by simp
qed

theorem accuracy_rounds_double_product_witness:
  "(1::nat) \<le> 3 \<and> (3::nat) < 2 ^ 40
   \<and> frac (100 * of_nat 1 / of_nat 3 + 1 / 2 :: rat) \<noteq> 0
   \<and> accuracy (updateStats \<lparr>totalAttempts = Fin (of_nat 3), correctAnswers = Fin (of_nat 1)\<rparr>)
       = Fin (of_int (spec_accuracyPercent 1 3))
   \<and> spec_accuracyPercent 1 3 = 33"
  using accuracy_rounds_double_product[of 1 3]
  by (simp add: frac_def spec_accuracyPercent_def round_def floor_numeral_div)

text \<open>
  Claim C8. Whatever the three random draws (binary64 values in \<open>[0, 1)\<close>),
  \<^verbatim>\<open>generateQuestion\<close> returns a scenario whose food is an entry of the catalog, whose
  portion is one of that food's portions, and whose blood glucose is an integer drawn from
  \<open>[80, 280]\<close> and rounded to the nearest multiple of 5 (\<open>round\<close> rounds a tie towards
  \<open>+\<infinity>\<close>), itself in \<open>[80, 280]\<close>; the settings and the statistics are left alone.
\<close>

theorem generated_scenario_valid:
  assumes "is_random r1" and "is_random r2" and "is_random r3"
  shows "\<exists>st' fd p N.
           generateQuestion st r1 r2 r3 = Inr st'
         \<and> currentFood st' = Some fd \<and> fd \<in> set foodDatabase
         \<and> currentPortion st' = Some p \<and> p \<in> set (portions fd)
         \<and> js_add (Math_floor (js_mul r3 (js_add (js_sub (Fin 280) (Fin 80)) (Fin 1)))) (Fin 80)
               = Fin (of_int N)
         \<and> 80 \<le> N \<and> N \<le> 280
         \<and> currentBG st' = Fin (of_int (5 * round (of_int N / 5 :: rat)))
         \<and> 80 \<le> 5 * round (of_int N / 5 :: rat) \<and> 5 * round (of_int N / 5 :: rat) \<le> 280
         \<and> userSettings st' = userSettings st \<and> stats st' = stats st"
proof -
  obtain q1 where q1: "r1 = Fin q1" "0 \<le> q1" "q1 \<le> 1 - 1 / 2 ^ 53"
    using random_bound[OF assms(1)] by blast
  obtain q2 where q2: "r2 = Fin q2" "0 \<le> q2" "q2 \<le> 1 - 1 / 2 ^ 53"
    using random_bound[OF assms(2)] by blast
  obtain q3 where q3: "r3 = Fin q3" "0 \<le> q3" "q3 \<le> 1 - 1 / 2 ^ 53"
    using random_bound[OF assms(3)] by blast
  have len: "array_length foodDatabase = Fin (of_int 12)"
    by (simp add: array_length_def foodDatabase_def)
  obtain k1 where k1: "Math_floor (js_mul r1 (array_length foodDatabase)) = Fin (of_int k1)"
      "0 \<le> k1" "k1 < 12"
    using random_index[OF q1(2,3), of 12] fl_below(3) unfolding len q1(1) by auto
  define fd where "fd = foodDatabase ! nat k1"
  have l12: "int (length foodDatabase) = 12" by (simp add: foodDatabase_def)
  have food: "js_index foodDatabase (Fin (of_int k1)) = Some fd" "fd \<in> set foodDatabase"
    using js_index_in_range[of k1 foodDatabase] k1(2,3) l12 by (simp_all add: fd_def)
  obtain k2 where k2: "Math_floor (js_mul r2 (array_length (portions fd))) = Fin (of_int k2)"
      "0 \<le> k2" "k2 < int (length (portions fd))"
  proof -
    from catalog_portions[OF food(2)] show ?thesis
    proof
      assume l: "length (portions fd) = 3"
      then have "array_length (portions fd) = Fin (of_int 3)" by (simp add: array_length_def)
      then show ?thesis
        using random_index[OF q2(2,3), of 3] fl_below(1) that l unfolding q2(1) by auto
    next
      assume l: "length (portions fd) = 4"
      then have "array_length (portions fd) = Fin (of_int 4)" by (simp add: array_length_def)
      then show ?thesis
        using random_index[OF q2(2,3), of 4] fl_below(2) that l unfolding q2(1) by auto
    qed
  qed
  define p where "p = portions fd ! nat k2"
  have portion: "js_index (portions fd) (Fin (of_int k2)) = Some p" "p \<in> set (portions fd)"
    using js_index_in_range[of k2 "portions fd"] k2(2,3) by (simp_all add: p_def)
  obtain k3 where k3:
      "Math_floor (js_mul r3 (js_add (js_sub (Fin 280) (Fin 80)) (Fin 1))) = Fin (of_int k3)"
      "0 \<le> k3" "k3 < 201"
    using random_index[OF q3(2,3), of 201] fl_below(4) unfolding bg_range q3(1) by auto
  define N where "N = k3 + 80"
  have N: "80 \<le> N" "N \<le> 280" using k3(2,3) by (simp_all add: N_def)
  have "js_add (Fin (of_int k3)) (Fin (of_int 80)) = Fin (of_int (k3 + 80))"
    using k3(2,3) by (intro js_add_int) simp_all
  then have draw:
    "js_add (Math_floor (js_mul r3 (js_add (js_sub (Fin 280) (Fin 80)) (Fin 1)))) (Fin 80)
       = Fin (of_int N)"
    by (simp add: k3(1) N_def)
  define M where "M = round (of_int N / 5 :: rat)"
  note rf = round_fifth[OF N, folded M_def]
  have "js_mul (Fin (of_int M)) (Fin (of_int 5)) = Fin (of_int (M * 5))"
    using rf(2,3) by (intro js_mul_int) simp_all
  then have bg5: "js_mul (Math_round (js_div (Fin (of_int N)) (Fin 5))) (Fin 5) = Fin (of_int (5 * M))"
    by (simp add: rf(1) mult.commute)
  have gen: "generateQuestion st r1 r2 r3 =
      Inr (st\<lparr>currentFood := Some fd, currentPortion := Some p, currentBG := Fin (of_int (5 * M))\<rparr>)"
    unfolding generateQuestion_def k1(1) food(1) Let_def option.case k2(1) portion(1) draw bg5 ..
  have "80 \<le> 5 * M" "5 * M \<le> 280" using rf(2,3) by simp_all
  then show ?thesis using gen food(2) portion(2) draw N unfolding M_def by auto
qed

theorem generated_scenario_valid_witness:
  "is_random (Fin 0) \<and> is_random (Fin (1 / 2))
   \<and> (\<exists>st'. generateQuestion initial_state (Fin 0) (Fin (1 / 2)) (Fin (1 / 2)) = Inr st'
          \<and> currentFood st' = Some (foodDatabase ! 0)
          \<and> currentPortion st' = Some (Fin (3 / 2))
          \<and> currentBG st' = Fin 180)"
  using generated_scenario_valid[of "Fin 0" "Fin (1 / 2)" "Fin (1 / 2)" initial_state]
  by (simp add: generateQuestion_def array_length_def foodDatabase_def is_double_0 is_double_half
      js_eval)

end
